theory Spec2Isabelle
  imports Complex_Main "HOL-Library.Sublist"
begin

section \<open>JavaScript values\<close>

text \<open>
  The shim (\<^verbatim>\<open>src/lib/mcp-shim.js\<close>) works on values produced by \<^verbatim>\<open>JSON.parse\<close> and on
  objects it builds from them. A value is modelled as a tree:
  \<^item> a number is an integer (JSON numbers with a fraction or an exponent, and IEEE
    rounding beyond \<open>2^53\<close>, are outside the model);
  \<^item> a string is a list of code units below 256 (\<open>string\<close>), so \<open>length\<close> is
    JavaScript's \<^verbatim>\<open>.length\<close>;
  \<^item> an object is the list of its own properties in property order, keys distinct;
  \<^item> \<open>JUndefined\<close> is JavaScript's \<^verbatim>\<open>undefined\<close>: \<^verbatim>\<open>JSON.parse\<close> never returns it, but
    reading an absent property does.
\<close>

datatype jsval =
    JUndefined
  | JNull
  | JBool bool
  | JNum int
  | JStr string
  | JArr "jsval list"
  | JObj "(string \<times> jsval) list"

text \<open>Truthiness, as \<^verbatim>\<open>if (v)\<close>, \<^verbatim>\<open>!v\<close> and \<^verbatim>\<open>a || b\<close> test it.\<close>

fun truthy :: "jsval \<Rightarrow> bool" where
  "truthy JUndefined = False"
| "truthy JNull = False"
| "truthy (JBool b) = b"
| "truthy (JNum n) = (n \<noteq> 0)"
| "truthy (JStr s) = (s \<noteq> [])"
| "truthy (JArr xs) = True"
| "truthy (JObj ps) = True"

fun typeof :: "jsval \<Rightarrow> string" where
  "typeof JUndefined = ''undefined''"
| "typeof JNull = ''object''"
| "typeof (JBool b) = ''boolean''"
| "typeof (JNum n) = ''number''"
| "typeof (JStr s) = ''string''"
| "typeof (JArr xs) = ''object''"
| "typeof (JObj ps) = ''object''"

text \<open>
  Reading a property, \<^verbatim>\<open>v.k\<close> and \<^verbatim>\<open>v?.k\<close>, for the keys the shim reads (none of them is
  a built-in property of a string, number, boolean or array). On \<^verbatim>\<open>null\<close> and
  \<^verbatim>\<open>undefined\<close> the result is that of \<^verbatim>\<open>v?.k\<close>; where the source writes \<^verbatim>\<open>v.k\<close> on a
  value that may be \<^verbatim>\<open>null\<close>, the caller models the TypeError.
\<close>

fun get :: "jsval \<Rightarrow> string \<Rightarrow> jsval" where
  "get (JObj ps) k = (case map_of ps k of Some v \<Rightarrow> v | None \<Rightarrow> JUndefined)"
| "get v k = JUndefined"

text \<open>
  Writing a property: an existing key keeps its place, a new key goes last.
\<close>

fun set_prop :: "(string \<times> jsval) list \<Rightarrow> string \<Rightarrow> jsval \<Rightarrow> (string \<times> jsval) list" where
  "set_prop [] k v = [(k, v)]"
| "set_prop (p # ps) k v = (if fst p = k then (k, v) # ps else p # set_prop ps k v)"

fun assign :: "jsval \<Rightarrow> string \<Rightarrow> jsval \<Rightarrow> jsval" where
  "assign (JObj ps) k v = JObj (set_prop ps k v)"
| "assign w k v = w"

subsection \<open>Numbers and strings as text\<close>

text \<open>
  An integer as text. Below \<^verbatim>\<open>1e21\<close> in magnitude these are the digits JavaScript prints
  for the number; from there on JavaScript prints an exponent and the model keeps the
  plain digits. Where a statement below depends on the text of a number, the number is
  kept small: a JSON value holds integers up to \<^verbatim>\<open>2**53\<close>, an HTTP status lies between 100
  and 999.
\<close>

definition digit :: "nat \<Rightarrow> char" where
  "digit d = ''0123456789'' ! d"

fun show_nat :: "nat \<Rightarrow> string" where
  "show_nat n = (if n < 10 then [digit n] else show_nat (n div 10) @ [digit (n mod 10)])"

definition show_int :: "int \<Rightarrow> string" where
  "show_int i = (if i < 0 then CHR ''-'' # show_nat (nat (- i)) else show_nat (nat i))"

fun join :: "string \<Rightarrow> string list \<Rightarrow> string" where
  "join s [] = []"
| "join s [x] = x"
| "join s (x # y # zs) = x @ s @ join s (y # zs)"

text \<open>
  String conversion, as a template literal \<^verbatim>\<open>`${v}`\<close> applies it.
\<close>

fun to_string :: "jsval \<Rightarrow> string" and to_string_elems :: "jsval list \<Rightarrow> string list" where
  "to_string JUndefined = ''undefined''"
| "to_string JNull = ''null''"
| "to_string (JBool b) = (if b then ''true'' else ''false'')"
| "to_string (JNum n) = show_int n"
| "to_string (JStr s) = s"
| "to_string (JArr xs) = join '','' (to_string_elems xs)"
| "to_string (JObj ps) = ''[object Object]''"
| "to_string_elems [] = []"
| "to_string_elems (x # xs) =
     (if x = JNull \<or> x = JUndefined then [] else to_string x) # to_string_elems xs"

text \<open>
  \<^verbatim>\<open>JSON.stringify\<close>: \<open>None\<close> is its result \<^verbatim>\<open>undefined\<close>. A property whose value is
  \<^verbatim>\<open>undefined\<close> is left out; an array element that is \<^verbatim>\<open>undefined\<close> prints as \<^verbatim>\<open>null\<close>.
\<close>

definition hex_digit :: "nat \<Rightarrow> char" where
  "hex_digit d = ''0123456789abcdef'' ! d"

definition quote_char :: "char \<Rightarrow> string" where
  "quote_char c =
     (if c = CHR 0x22 then [CHR 0x5C, CHR 0x22]
      else if c = CHR 0x5C then [CHR 0x5C, CHR 0x5C]
      else if c = CHR 0x08 then [CHR 0x5C, CHR ''b'']
      else if c = CHR 0x09 then [CHR 0x5C, CHR ''t'']
      else if c = CHR 0x0A then [CHR 0x5C, CHR ''n'']
      else if c = CHR 0x0C then [CHR 0x5C, CHR ''f'']
      else if c = CHR 0x0D then [CHR 0x5C, CHR ''r'']
      else if (of_char c :: nat) < 32
        then [CHR 0x5C, CHR ''u'', CHR ''0'', CHR ''0'',
              hex_digit (of_char c div 16), hex_digit (of_char c mod 16)]
      else [c])"

definition quote :: "string \<Rightarrow> string" where
  "quote s = CHR 0x22 # concat (map quote_char s) @ [CHR 0x22]"

fun stringify :: "jsval \<Rightarrow> string option"
  and stringify_elems :: "jsval list \<Rightarrow> string list"
  and stringify_props :: "(string \<times> jsval) list \<Rightarrow> string list" where
  "stringify JUndefined = None"
| "stringify JNull = Some ''null''"
| "stringify (JBool b) = Some (if b then ''true'' else ''false'')"
| "stringify (JNum n) = Some (show_int n)"
| "stringify (JStr s) = Some (quote s)"
| "stringify (JArr xs) = Some (''['' @ join '','' (stringify_elems xs) @ '']'')"
| "stringify (JObj ps) = Some (''{'' @ join '','' (stringify_props ps) @ ''}'')"
| "stringify_elems [] = []"
| "stringify_elems (x # xs) =
     (case stringify x of None \<Rightarrow> ''null'' | Some s \<Rightarrow> s) # stringify_elems xs"
| "stringify_props [] = []"
| "stringify_props (p # ps) =
     (case stringify (snd p) of
        None \<Rightarrow> stringify_props ps
      | Some s \<Rightarrow> (quote (fst p) @ '':'' @ s) # stringify_props ps)"

text \<open>
  \<^verbatim>\<open>String(JSON.stringify(v))\<close>, as a template literal and \<^verbatim>\<open>console.log\<close> print it.
\<close>

definition stringify_text :: "jsval \<Rightarrow> string" where
  "stringify_text v = (case stringify v of None \<Rightarrow> ''undefined'' | Some s \<Rightarrow> s)"

text \<open>
  \<^verbatim>\<open>Buffer.byteLength(s, 'utf8')\<close>: a code unit below 128 is one byte, one from 128 to
  255 is two.
\<close>

definition byteLength :: "string \<Rightarrow> int" where
  "byteLength s = (\<Sum>c\<leftarrow>s. if (of_char c :: nat) < 128 then 1 else 2)"

text \<open>
  Object spread \<^verbatim>\<open>{...v}\<close>: the own enumerable properties of \<open>v\<close>. An array and a string
  spread their indices; other primitives spread nothing.
\<close>

fun indexed :: "nat \<Rightarrow> jsval list \<Rightarrow> (string \<times> jsval) list" where
  "indexed i [] = []"
| "indexed i (x # xs) = (show_nat i, x) # indexed (Suc i) xs"

fun spread :: "jsval \<Rightarrow> (string \<times> jsval) list" where
  "spread (JObj ps) = ps"
| "spread (JArr xs) = indexed 0 xs"
| "spread (JStr s) = indexed 0 (map (\<lambda>c. JStr [c]) s)"
| "spread v = []"

text \<open>\<^verbatim>\<open>String.prototype.includes\<close> and \<^verbatim>\<open>startsWith\<close> (the latter is \<open>prefix\<close>).\<close>

fun str_includes :: "string \<Rightarrow> string \<Rightarrow> bool" where
  "str_includes [] sub = (sub = [])"
| "str_includes (c # s) sub = (prefix sub (c # s) \<or> str_includes s sub)"

declare show_nat.simps [simp del]

section \<open>Configuration and state\<close>

text \<open>
  \<^verbatim>\<open>CONFIG\<close> (lines 30-56), the fields the request path reads. The numeric fields come
  from \<^verbatim>\<open>parseInt(...) || default\<close>, so each is a non-zero integer, possibly negative.
  \<open>allowedPaths\<close> is the list as the line handler sees it: split at commas, empty
  entries dropped, and each entry normalized at start-up (line 608).
\<close>

record config =
  proxyUrl :: string
  serverName :: string
  apiKey :: string
  maxRequestSize :: int
  rateLimitPerMinute :: int
  allowedPaths :: "string list"
  responseCache :: bool
  cacheTTLMs :: int
  timeout :: int
  maxRetries :: int
  retryInitialDelayMs :: int
  retryMaxDelayMs :: int

text \<open>
  The mutable state: \<^verbatim>\<open>cache.entries\<close> (a \<^verbatim>\<open>Map\<close> from key to \<^verbatim>\<open>{value, expiry}\<close>) and
  \<^verbatim>\<open>rateLimit.requests\<close> (the recorded timestamps, oldest first).
\<close>

record cache_entry =
  cvalue :: jsval
  expiry :: int

record shim_state =
  entries :: "string \<rightharpoonup> cache_entry"
  requests :: "int list"

section \<open>Cache system\<close>

text \<open>\<^verbatim>\<open>cache.isUncacheable\<close> (lines 249-264).\<close>

definition writeOperations :: "string list" where
  "writeOperations =
     [''write_file'', ''edit_file'', ''create_directory'', ''move_file'', ''delete'',
      ''create_entities'', ''delete_entities'', ''create_relations'', ''delete_relations'',
      ''add_observations'', ''delete_observations'']"

definition isUncacheable :: "jsval \<Rightarrow> bool" where
  "isUncacheable request =
     (if get request ''method'' = JStr ''tools/call''
         \<and> typeof (get (get request ''params'') ''name'') = ''string''
      then (case get (get request ''params'') ''name'' of
              JStr name \<Rightarrow> list_ex (\<lambda>w. str_includes name w) writeOperations
            | _ \<Rightarrow> False)
      else False)"

text \<open>
  \<^verbatim>\<open>cache.createKey\<close> (lines 235-242): \<open>None\<close> is \<^verbatim>\<open>null\<close>. The request is not \<^verbatim>\<open>null\<close>
  here: \<^verbatim>\<open>forwardToProxy\<close> has read a property of it before.
\<close>

definition createKey :: "jsval \<Rightarrow> string option" where
  "createKey request =
     (if isUncacheable request then None
      else Some (to_string (get request ''method'') @ '':''
                 @ stringify_text (get request ''params'')))"

text \<open>
  \<^verbatim>\<open>cache.get\<close> (lines 192-210) at time \<open>now\<close>: the entries left and the value found
  (\<open>JUndefined\<close> when there is none). An expired entry is deleted.
\<close>

definition cache_get ::
  "config \<Rightarrow> int \<Rightarrow> (string \<rightharpoonup> cache_entry) \<Rightarrow> string \<Rightarrow> (string \<rightharpoonup> cache_entry) \<times> jsval" where
  "cache_get CONFIG now ents key =
     (if \<not> responseCache CONFIG then (ents, JUndefined)
      else (case ents key of
              None \<Rightarrow> (ents, JUndefined)
            | Some entry \<Rightarrow>
                if now > expiry entry then (ents(key := None), JUndefined)
                else (ents, cvalue entry)))"

text \<open>\<^verbatim>\<open>cache.set\<close> (lines 217-228) at time \<open>now\<close>.\<close>

definition cache_set ::
  "config \<Rightarrow> int \<Rightarrow> (string \<rightharpoonup> cache_entry) \<Rightarrow> string \<Rightarrow> jsval \<Rightarrow> (string \<rightharpoonup> cache_entry)" where
  "cache_set CONFIG now ents key v =
     (if \<not> responseCache CONFIG then ents
      else ents(key \<mapsto> \<lparr>cvalue = v, expiry = now + cacheTTLMs CONFIG\<rparr>))"

section \<open>Rate limiting\<close>

text \<open>
  \<^verbatim>\<open>rateLimit.isLimitExceeded\<close> (lines 278-286) at time \<open>now\<close>: the timestamps kept and
  the answer. \<^verbatim>\<open>rateLimit.addRequest\<close> (lines 291-293) appends the time it reads.
\<close>

definition isLimitExceeded :: "config \<Rightarrow> int \<Rightarrow> int list \<Rightarrow> int list \<times> bool" where
  "isLimitExceeded CONFIG now reqs =
     (let kept = filter (\<lambda>time. now - time < 60000) reqs
      in (kept, int (length kept) \<ge> rateLimitPerMinute CONFIG))"

definition addRequest :: "int \<Rightarrow> int list \<Rightarrow> int list" where
  "addRequest now reqs = reqs @ [now]"



section \<open>Path security\<close>

text \<open>
  Node's \<^verbatim>\<open>path\<close> module is a parameter of the model: \<^verbatim>\<open>path.normalize\<close>,
  \<^verbatim>\<open>path.isAbsolute\<close> and \<^verbatim>\<open>path.sep\<close>.
\<close>

record path_module =
  normalize :: "string \<Rightarrow> string"
  isAbsolute :: "string \<Rightarrow> bool"
  sep :: string

text \<open>
  \<^verbatim>\<open>pathSecurity.sanitizePath\<close> (lines 306-340): \<open>None\<close> is \<^verbatim>\<open>null\<close>. The argument is any
  value (an entry of a \<^verbatim>\<open>paths\<close> array need not be a string). \<^verbatim>\<open>path.normalize\<close> throws
  only on a non-string, which the first test has excluded, so the \<^verbatim>\<open>catch\<close> is dead.
\<close>

definition sanitizePath :: "path_module \<Rightarrow> config \<Rightarrow> jsval \<Rightarrow> string option" where
  "sanitizePath P CONFIG filePath =
     (if \<not> truthy filePath \<or> typeof filePath \<noteq> ''string'' then None
      else
        (let normalizedPath = normalize P (to_string filePath) in
         if isAbsolute P normalizedPath then
           (if length (allowedPaths CONFIG) > 0 then
              (if list_ex (\<lambda>allowedPath.
                      normalizedPath = allowedPath
                      \<or> prefix (allowedPath @ sep P) normalizedPath) (allowedPaths CONFIG)
               then Some normalizedPath
               else None)
            else Some normalizedPath)
         else None))"

text \<open>
  The loop over \<^verbatim>\<open>args.paths\<close> (lines 380-390): \<open>None\<close> when an entry is rejected
  (\<^verbatim>\<open>hasInvalidPath\<close>), else the sanitized entries.
\<close>

fun sanitize_all :: "path_module \<Rightarrow> config \<Rightarrow> jsval list \<Rightarrow> string list option" where
  "sanitize_all P CONFIG [] = Some []"
| "sanitize_all P CONFIG (p # ps) =
     (case sanitizePath P CONFIG p of
        None \<Rightarrow> None
      | Some sanitized \<Rightarrow>
          (case sanitize_all P CONFIG ps of
             None \<Rightarrow> None
           | Some rest \<Rightarrow> Some (sanitized # rest)))"

text \<open>
  \<^verbatim>\<open>request.params.arguments\<close>, and the assignment \<^verbatim>\<open>args.k = v\<close>: \<^verbatim>\<open>args\<close> is the object
  inside the request, so the request changes.
\<close>

definition arguments_of :: "jsval \<Rightarrow> jsval" where
  "arguments_of request = get (get request ''params'') ''arguments''"

definition set_arg :: "jsval \<Rightarrow> string \<Rightarrow> jsval \<Rightarrow> jsval" where
  "set_arg request k v =
     assign request ''params''
       (assign (get request ''params'') ''arguments'' (assign (arguments_of request) k v))"

text \<open>
  The object returned on a rejection:
  \<^verbatim>\<open>{...request, __securityViolation: true, __errorMessage: msg}\<close>.
\<close>

definition violation :: "jsval \<Rightarrow> string \<Rightarrow> jsval" where
  "violation request msg =
     JObj (set_prop (set_prop (spread request) ''__securityViolation'' (JBool True))
             ''__errorMessage'' (JStr msg))"

text \<open>
  The four checks of \<^verbatim>\<open>processRequest\<close>, in the source's order. Each returns \<open>Inl\<close> of
  the object the function returns at once, or \<open>Inr\<close> of the request as it stands after
  the check.
\<close>

definition check_path :: "path_module \<Rightarrow> config \<Rightarrow> jsval \<Rightarrow> jsval + jsval" where
  "check_path P CONFIG request =
     (let args = arguments_of request in
      if typeof (get args ''path'') = ''string'' then
        (case sanitizePath P CONFIG (get args ''path'') of
           None \<Rightarrow>
             Inl (violation request (''Access denied to path: '' @ to_string (get args ''path'')))
         | Some sanitizedPath \<Rightarrow> Inr (set_arg request ''path'' (JStr sanitizedPath)))
      else Inr request)"

definition check_paths :: "path_module \<Rightarrow> config \<Rightarrow> jsval \<Rightarrow> jsval + jsval" where
  "check_paths P CONFIG request =
     (let args = arguments_of request in
      case get args ''paths'' of
        JArr paths \<Rightarrow>
          (case sanitize_all P CONFIG paths of
             None \<Rightarrow> Inl (violation request ''Access denied to one or more requested paths'')
           | Some sanitizedPaths \<Rightarrow>
               Inr (set_arg request ''paths'' (JArr (map JStr sanitizedPaths))))
      | _ \<Rightarrow> Inr request)"

definition check_field :: "path_module \<Rightarrow> config \<Rightarrow> string \<Rightarrow> jsval \<Rightarrow> jsval + jsval" where
  "check_field P CONFIG field request =
     (let args = arguments_of request in
      if typeof (get args field) = ''string'' then
        (let request' =
           set_arg request field
             (case sanitizePath P CONFIG (get args field) of
                None \<Rightarrow> JNull
              | Some sanitized \<Rightarrow> JStr sanitized)
         in if get (arguments_of request') field = JNull
            then Inl (violation request' (''Access denied to '' @ field @ '' path''))
            else Inr request')
      else Inr request)"

text \<open>
  \<^verbatim>\<open>pathSecurity.processRequest\<close> (lines 347-432). Reading \<^verbatim>\<open>request.method\<close> of \<^verbatim>\<open>null\<close>
  throws inside the \<^verbatim>\<open>try\<close>; the \<^verbatim>\<open>catch\<close> logs and the request is returned as it is.
\<close>

definition processRequest :: "path_module \<Rightarrow> config \<Rightarrow> jsval \<Rightarrow> jsval" where
  "processRequest P CONFIG request =
     (if serverName CONFIG \<noteq> ''filesystem'' then request
      else if request = JNull \<or> request = JUndefined then request
      else if get request ''method'' = JStr ''tools/call''
              \<and> typeof (arguments_of request) = ''object'' then
        (case check_path P CONFIG request of
           Inl rejected \<Rightarrow> rejected
         | Inr r1 \<Rightarrow>
             (case check_paths P CONFIG r1 of
                Inl rejected \<Rightarrow> rejected
              | Inr r2 \<Rightarrow>
                  (case check_field P CONFIG ''source'' r2 of
                     Inl rejected \<Rightarrow> rejected
                   | Inr r3 \<Rightarrow>
                       (case check_field P CONFIG ''destination'' r3 of
                          Inl rejected \<Rightarrow> rejected
                        | Inr r4 \<Rightarrow> r4))))
      else request)"

subsection \<open>The POSIX path module\<close>

text \<open>
  Modelled from the spec: Node's \<^verbatim>\<open>path\<close> module is not among the repository's sources.
  The spec says the sanitizer "normalizes the path (resolves \<^verbatim>\<open>.\<close>/\<^verbatim>\<open>..\<close> segments)", tests
  whether it is absolute, and compares with \<^verbatim>\<open>prefix + separator\<close>; its examples use
  \<^verbatim>\<open>/\<close>. This instance is \<^verbatim>\<open>path.posix\<close>: empty and \<^verbatim>\<open>.\<close> segments are dropped, \<^verbatim>\<open>..\<close>
  removes the segment before it (at the root of an absolute path it is dropped, at the
  start of a relative path it is kept), a trailing slash is kept, and the empty result
  is \<^verbatim>\<open>.\<close> .
\<close>

fun split_slash :: "string \<Rightarrow> string \<Rightarrow> string list" where
  "split_slash acc [] = [rev acc]"
| "split_slash acc (c # cs) =
     (if c = CHR ''/'' then rev acc # split_slash [] cs else split_slash (c # acc) cs)"

fun normalize_segments :: "bool \<Rightarrow> string list \<Rightarrow> string list \<Rightarrow> string list" where
  "normalize_segments allowAboveRoot stack [] = rev stack"
| "normalize_segments allowAboveRoot stack (seg # segs) =
     (if seg = [] \<or> seg = ''.'' then normalize_segments allowAboveRoot stack segs
      else if seg = ''..'' then
        (case stack of
           seg' # below \<Rightarrow>
             if seg' \<noteq> ''..'' then normalize_segments allowAboveRoot below segs
             else if allowAboveRoot then normalize_segments allowAboveRoot (seg # stack) segs
             else normalize_segments allowAboveRoot stack segs
         | [] \<Rightarrow>
             if allowAboveRoot then normalize_segments allowAboveRoot (seg # stack) segs
             else normalize_segments allowAboveRoot stack segs)
      else normalize_segments allowAboveRoot (seg # stack) segs)"

definition posix_isAbsolute :: "string \<Rightarrow> bool" where
  "posix_isAbsolute p = (case p of [] \<Rightarrow> False | c # cs \<Rightarrow> c = CHR ''/'')"

definition posix_normalize :: "string \<Rightarrow> string" where
  "posix_normalize p =
     (if p = [] then ''.''
      else
        (let absolute = posix_isAbsolute p;
             trailingSeparator = (last p = CHR ''/'');
             res = join ''/'' (normalize_segments (\<not> absolute) [] (split_slash [] p))
         in if res = [] then (if absolute then ''/'' else if trailingSeparator then ''./'' else ''.'')
            else (if absolute then ''/'' else []) @ res
                 @ (if trailingSeparator then ''/'' else [])))"

definition posix :: path_module where
  "posix = \<lparr>normalize = posix_normalize, isAbsolute = posix_isAbsolute, sep = ''/''\<rparr>"

section \<open>MCP request processing\<close>

text \<open>\<^verbatim>\<open>createErrorResponse\<close> (lines 576-585).\<close>

definition createErrorResponse :: "jsval \<Rightarrow> int \<Rightarrow> jsval \<Rightarrow> jsval" where
  "createErrorResponse ident code message =
     JObj [(''jsonrpc'', JStr ''2.0''), (''id'', ident),
           (''error'', JObj [(''code'', JNum code), (''message'', message)])]"

text \<open>
  What one call of \<^verbatim>\<open>forwardToProxy\<close> meets outside the program. A thrown error is its
  \<^verbatim>\<open>name\<close> and \<^verbatim>\<open>message\<close>. A call of \<^verbatim>\<open>fetch\<close> would settle after \<open>latency\<close>
  milliseconds, rejecting with an error (a transport error) or resolving with a
  response: its status (three digits), what \<^verbatim>\<open>response.text()\<close> gives, what
  \<^verbatim>\<open>response.json()\<close> gives (an error when the body is not JSON or cannot be read), and
  the milliseconds \<open>body_ms\<close> that reading the body takes after \<^verbatim>\<open>fetch\<close> has resolved
  (every read of a body is taken to end).
\<close>

record js_error =
  err_name :: string
  err_message :: string

record http_response =
  status :: int
  body_text :: string
  body_json :: "js_error + jsval"
  body_ms :: int

datatype fetch_outcome = Rejected js_error | Responded http_response

record fetch_call =
  latency :: int
  settles :: fetch_outcome

text \<open>
  The environment of one call of \<^verbatim>\<open>forwardToProxy\<close>: the readings of \<^verbatim>\<open>Date.now()\<close> in
  \<^verbatim>\<open>isLimitExceeded\<close>, \<^verbatim>\<open>addRequest\<close>, \<^verbatim>\<open>cache.get\<close> and \<^verbatim>\<open>cache.set\<close>; per attempt
  number, the call of \<^verbatim>\<open>fetch\<close> and the value of \<^verbatim>\<open>Math.random()\<close>; and the number
  arithmetic of the JavaScript engine, which the back-off delay is computed with. The
  type \<open>'d\<close> is the engine's number type (IEEE doubles, with their infinities and NaN):
  \<open>number n\<close> is the number an integer field of \<^verbatim>\<open>CONFIG\<close> or an integer literal holds,
  \<open>num_0_9\<close> and \<open>num_0_2\<close> are the literals \<^verbatim>\<open>0.9\<close> and \<^verbatim>\<open>0.2\<close>, and \<open>num_mul\<close>, \<open>num_add\<close>,
  \<open>num_pow\<close>, \<open>num_min\<close> and \<open>num_le\<close> are \<^verbatim>\<open>*\<close>, \<^verbatim>\<open>+\<close>, \<^verbatim>\<open>Math.pow\<close>, \<^verbatim>\<open>Math.min\<close> and \<^verbatim>\<open><=\<close>.
\<close>

record 'd env =
  now_check :: int
  now_record :: int
  now_get :: int
  now_set :: int
  fetch :: "nat \<Rightarrow> fetch_call"
  random :: "nat \<Rightarrow> 'd"
  number :: "int \<Rightarrow> 'd"
  num_0_9 :: 'd
  num_0_2 :: 'd
  num_mul :: "'d \<Rightarrow> 'd \<Rightarrow> 'd"
  num_add :: "'d \<Rightarrow> 'd \<Rightarrow> 'd"
  num_pow :: "'d \<Rightarrow> 'd \<Rightarrow> 'd"
  num_min :: "'d \<Rightarrow> 'd \<Rightarrow> 'd"
  num_le :: "'d \<Rightarrow> 'd \<Rightarrow> bool"

text \<open>\<^verbatim>\<open>response.ok\<close>: the status is in the range 200-299.\<close>

definition ok :: "http_response \<Rightarrow> bool" where
  "ok response = (200 \<le> status response \<and> status response \<le> 299)"

text \<open>
  The effects of a call, in order: the calls of the rate limiter and of the cache, each
  HTTP POST (URL, headers, body), each back-off wait (the delay passed to \<^verbatim>\<open>setTimeout\<close>
  at line 552, a number of the engine) and each line written to standard output.
\<close>

datatype 'd event =
    RateCheck
  | RateRecord
  | CacheGet string
  | CacheSet string
  | HttpPost string "(string \<times> string) list" string
  | Delay 'd
  | Stdout string

definition post_event :: "config \<Rightarrow> jsval \<Rightarrow> 'd event" where
  "post_event CONFIG request =
     HttpPost (proxyUrl CONFIG @ ''/'' @ serverName CONFIG)
       ((''Content-Type'', ''application/json'')
        # (if apiKey CONFIG \<noteq> [] then [(''Authorization'', ''Bearer '' @ apiKey CONFIG)] else []))
       (stringify_text request)"

text \<open>
  The timer of an attempt (lines 496-497): \<^verbatim>\<open>setTimeout(() => controller.abort(),
  CONFIG.timeout)\<close>. Node runs a timer whose delay is below 1 or above 2147483647 with
  a delay of 1 ms.
\<close>

definition timer_ms :: "config \<Rightarrow> int" where
  "timer_ms CONFIG =
     (if 1 \<le> timeout CONFIG \<and> timeout CONFIG \<le> 2147483647 then timeout CONFIG else 1)"

text \<open>
  The body of the \<^verbatim>\<open>try\<close> (lines 495-526) on attempt \<open>attempt\<close>: \<open>Inl\<close> is the error
  thrown, \<open>Inr\<close> the entries, the effects after the POST and the value returned. When
  the call of \<^verbatim>\<open>fetch\<close> has not settled when the timer fires, \<^verbatim>\<open>controller.abort()\<close>
  rejects it with an \<^verbatim>\<open>AbortError\<close> (clocks are ideal here: a call that settles at the
  very millisecond of the timer settles). The timer is cleared as soon as \<^verbatim>\<open>fetch\<close> has
  resolved (line 506): the reads of the body at lines 509 and 513 run without a timer,
  so \<open>body_ms\<close> plays no part. Reading \<^verbatim>\<open>responseData.id\<close> of a \<^verbatim>\<open>null\<close> body throws a
  TypeError (the message is V8's).
\<close>

definition null_read_error :: "string \<Rightarrow> js_error" where
  "null_read_error k =
     \<lparr>err_name = ''TypeError'',
      err_message = ''Cannot read properties of null (reading '' @ [CHR 0x27] @ k @ [CHR 0x27] @ '')''\<rparr>"

definition abort_error :: js_error where
  "abort_error = \<lparr>err_name = ''AbortError'', err_message = ''The user aborted a request.''\<rparr>"

definition try_attempt ::
  "config \<Rightarrow> 'd env \<Rightarrow> string option \<Rightarrow> (string \<rightharpoonup> cache_entry) \<Rightarrow> nat
     \<Rightarrow> js_error + ((string \<rightharpoonup> cache_entry) \<times> 'd event list \<times> jsval)" where
  "try_attempt CONFIG E cacheKey ents attempt =
     (if latency (fetch E attempt) > timer_ms CONFIG then Inl abort_error
      else
        (case settles (fetch E attempt) of
           Rejected error \<Rightarrow> Inl error
         | Responded response \<Rightarrow>
             if \<not> ok response then
               Inl \<lparr>err_name = ''Error'',
                    err_message = ''HTTP error '' @ show_int (status response) @ '': ''
                                  @ body_text response\<rparr>
             else
               (case body_json response of
                  Inl error \<Rightarrow> Inl error
                | Inr responseData \<Rightarrow>
                    if responseData = JNull then Inl (null_read_error ''id'')
                    else
                      (case cacheKey of
                         Some key \<Rightarrow>
                           if \<not> truthy (get responseData ''error'') \<and> key \<noteq> [] then
                             Inr (cache_set CONFIG (now_set E) ents key responseData,
                                  [CacheSet key], responseData)
                           else Inr (ents, [], responseData)
                       | None \<Rightarrow> Inr (ents, [], responseData)))))"

text \<open>
  The back-off delay of lines 542-545, with the engine's operations in the source's
  order:
  \<^verbatim>\<open>Math.min(CONFIG.retryMaxDelayMs,
     CONFIG.retryInitialDelayMs * Math.pow(2, attempt) * (0.9 + Math.random() * 0.2))\<close>.
\<close>

definition jitter :: "'d env \<Rightarrow> nat \<Rightarrow> 'd" where
  "jitter E attempt = num_add E (num_0_9 E) (num_mul E (random E attempt) (num_0_2 E))"

definition backoff :: "config \<Rightarrow> 'd env \<Rightarrow> nat \<Rightarrow> 'd" where
  "backoff CONFIG E attempt =
     num_min E (number E (retryMaxDelayMs CONFIG))
       (num_mul E
          (num_mul E (number E (retryInitialDelayMs CONFIG))
             (num_pow E (number E 2) (number E (int attempt))))
          (jitter E attempt))"

text \<open>The response after the loop (lines 562-566).\<close>

definition unreachable :: "jsval \<Rightarrow> js_error option \<Rightarrow> jsval" where
  "unreachable request lastError =
     createErrorResponse (get request ''id'') (- 32003)
       (JStr (''Failed to communicate with MCP proxy: ''
              @ (case lastError of
                   None \<Rightarrow> ''Unknown error''
                 | Some error \<Rightarrow>
                     if err_message error = [] then ''Unknown error'' else err_message error)))"

text \<open>
  The retry loop (lines 492-554) from attempt number \<open>attempt\<close> on, with the response
  that follows it: the entries, the effects and the value \<^verbatim>\<open>forwardToProxy\<close> returns.
\<close>

function retry_loop ::
  "config \<Rightarrow> 'd env \<Rightarrow> jsval \<Rightarrow> string option \<Rightarrow> (string \<rightharpoonup> cache_entry) \<Rightarrow> nat \<Rightarrow> js_error option
     \<Rightarrow> (string \<rightharpoonup> cache_entry) \<times> 'd event list \<times> jsval" where
  "retry_loop CONFIG E request cacheKey ents attempt lastError =
     (if int attempt \<le> maxRetries CONFIG then
        (case try_attempt CONFIG E cacheKey ents attempt of
           Inr (ents', events, responseData) \<Rightarrow>
             (ents', post_event CONFIG request # events, responseData)
         | Inl error \<Rightarrow>
             if err_name error = ''AbortError'' then
               (ents, [post_event CONFIG request],
                createErrorResponse (get request ''id'') (- 32000)
                  (JStr (''Request timed out after '' @ show_int (timeout CONFIG) @ ''ms'')))
             else if int attempt \<ge> maxRetries CONFIG then
               (ents, [post_event CONFIG request], unreachable request (Some error))
             else
               (case retry_loop CONFIG E request cacheKey ents (Suc attempt) (Some error) of
                  (ents', events, response) \<Rightarrow>
                    (ents', post_event CONFIG request # Delay (backoff CONFIG E attempt) # events,
                     response)))
      else (ents, [], unreachable request lastError))"
  by pat_completeness auto
termination
  by (relation "measure (\<lambda>(CONFIG, E, request, cacheKey, ents, attempt, lastError).
                  nat (maxRetries CONFIG + 1 - int attempt))") auto

declare retry_loop.simps [simp del]

text \<open>
  \<^verbatim>\<open>forwardToProxy\<close> (lines 444-567): \<open>Inl\<close> is the error the promise rejects with, \<open>Inr\<close>
  the state after the call, its effects and the response. Reading
  \<^verbatim>\<open>request.__securityViolation\<close> of \<^verbatim>\<open>null\<close> throws.
\<close>

definition forwardToProxy ::
  "config \<Rightarrow> 'd env \<Rightarrow> shim_state \<Rightarrow> jsval \<Rightarrow> js_error + (shim_state \<times> 'd event list \<times> jsval)" where
  "forwardToProxy CONFIG E st request =
     (if request = JNull \<or> request = JUndefined then Inl (null_read_error ''__securityViolation'')
      else if truthy (get request ''__securityViolation'') then
        Inr (st, [],
             createErrorResponse (get request ''id'') (- 32600)
               (if truthy (get request ''__errorMessage'') then get request ''__errorMessage''
                else JStr ''Security violation detected''))
      else
        (let requestSize = byteLength (stringify_text request) in
         if requestSize > maxRequestSize CONFIG then
           Inr (st, [],
                createErrorResponse (get request ''id'') (- 32600)
                  (JStr (''Request too large ('' @ show_int requestSize @ '' bytes)'')))
         else
           (case isLimitExceeded CONFIG (now_check E) (requests st) of
              (kept, exceeded) \<Rightarrow>
                if exceeded then
                  Inr (st\<lparr>requests := kept\<rparr>, [RateCheck],
                       createErrorResponse (get request ''id'') (- 32029)
                         (JStr ''Rate limit exceeded''))
                else
                  (let recorded = addRequest (now_record E) kept;
                       cacheKey = createKey request;
                       looked =
                         (case cacheKey of
                            Some key \<Rightarrow>
                              if key \<noteq> [] then
                                (case cache_get CONFIG (now_get E) (entries st) key of
                                   (ents, cachedResponse) \<Rightarrow> (ents, [CacheGet key], cachedResponse))
                              else (entries st, [], JUndefined)
                          | None \<Rightarrow> (entries st, [], JUndefined))
                   in case looked of
                        (ents, lookup, cachedResponse) \<Rightarrow>
                          if truthy cachedResponse then
                            Inr (\<lparr>entries = ents, requests = recorded\<rparr>,
                                 [RateCheck, RateRecord] @ lookup,
                                 JObj (set_prop (spread cachedResponse) ''id'' (get request ''id'')))
                          else
                            (case retry_loop CONFIG E request cacheKey ents 0 None of
                               (ents', events, response) \<Rightarrow>
                                 Inr (\<lparr>entries = ents', requests = recorded\<rparr>,
                                      [RateCheck, RateRecord] @ lookup @ events, response))))))"

section \<open>Runtime: the line handler\<close>

text \<open>
  The handler of \<^verbatim>\<open>rl.on('line')\<close> (lines 613-648). \<^verbatim>\<open>JSON.parse\<close> is a parameter:
  \<open>Inl\<close> is the SyntaxError it throws. The handler returns the state and the effects,
  ending with the line written by \<^verbatim>\<open>console.log\<close>.
\<close>

definition parse_error_response :: "js_error \<Rightarrow> jsval" where
  "parse_error_response error =
     JObj [(''jsonrpc'', JStr ''2.0''), (''id'', JNull),
           (''error'', JObj [(''code'', JNum (- 32700)),
                             (''message'', JStr (''Parse error: '' @ err_message error))])]"

definition on_line ::
  "path_module \<Rightarrow> (string \<Rightarrow> js_error + jsval) \<Rightarrow> config \<Rightarrow> 'd env \<Rightarrow> shim_state \<Rightarrow> string
     \<Rightarrow> shim_state \<times> 'd event list" where
  "on_line P parse CONFIG E st line =
     (if int (length line) > maxRequestSize CONFIG then
        (st, [Stdout (stringify_text (createErrorResponse JNull (- 32600) (JStr ''Request too large'')))])
      else
        (case parse line of
           Inl error \<Rightarrow> (st, [Stdout (stringify_text (parse_error_response error))])
         | Inr request \<Rightarrow>
             (let secureRequest = processRequest P CONFIG request in
              case forwardToProxy CONFIG E st secureRequest of
                Inl error \<Rightarrow> (st, [Stdout (stringify_text (parse_error_response error))])
              | Inr (st', events, response) \<Rightarrow>
                  (st', events @ [Stdout (stringify_text response)]))))"

text \<open>
  The lines of standard input, handled one after another, each with the environment
  its handler meets. (The handlers are asynchronous; this is the run in which each has
  finished before the next line arrives.)
\<close>

fun run ::
  "path_module \<Rightarrow> (string \<Rightarrow> js_error + jsval) \<Rightarrow> config \<Rightarrow> shim_state
     \<Rightarrow> ('d env \<times> string) list \<Rightarrow> shim_state \<times> 'd event list" where
  "run P parse CONFIG st [] = (st, [])"
| "run P parse CONFIG st (l # ls) =
     (case on_line P parse CONFIG (fst l) st (snd l) of
        (st', events) \<Rightarrow>
          (case run P parse CONFIG st' ls of
             (st'', events') \<Rightarrow> (st'', events @ events')))"

section \<open>Notions used in the statements\<close>





text \<open>
  The values \<^verbatim>\<open>JSON.parse\<close> returns, within the numbers of the model: no \<^verbatim>\<open>undefined\<close>
  anywhere, integers that a double holds exactly.
\<close>

fun json :: "jsval \<Rightarrow> bool"
  and json_elems :: "jsval list \<Rightarrow> bool"
  and json_props :: "(string \<times> jsval) list \<Rightarrow> bool" where
  "json JUndefined = False"
| "json JNull = True"
| "json (JBool b) = True"
| "json (JNum n) = (\<bar>n\<bar> \<le> 9007199254740992)"
| "json (JStr s) = True"
| "json (JArr xs) = json_elems xs"
| "json (JObj ps) = json_props ps"
| "json_elems [] = True"
| "json_elems (x # xs) = (json x \<and> json_elems xs)"
| "json_props [] = True"
| "json_props (p # ps) = (json (snd p) \<and> json_props ps)"



text \<open>
  A request reaches the proxy when it passes the local checks of \<^verbatim>\<open>forwardToProxy\<close> (it
  is an object without the marker, not too large, within the rate limit) and the cache
  has no usable response for it.
\<close>

definition reaches_proxy :: "config \<Rightarrow> 'd env \<Rightarrow> shim_state \<Rightarrow> jsval \<Rightarrow> bool" where
  "reaches_proxy CONFIG E st request =
     (request \<noteq> JNull \<and> request \<noteq> JUndefined
      \<and> \<not> truthy (get request ''__securityViolation'')
      \<and> byteLength (stringify_text request) \<le> maxRequestSize CONFIG
      \<and> \<not> snd (isLimitExceeded CONFIG (now_check E) (requests st))
      \<and> (case createKey request of
            None \<Rightarrow> True
          | Some key \<Rightarrow> \<not> truthy (snd (cache_get CONFIG (now_get E) (entries st) key))))"

text \<open>The cache lookup of a request that reaches the proxy: its effects and the entries left.\<close>

definition lookup_events :: "jsval \<Rightarrow> 'd event list" where
  "lookup_events request = (case createKey request of None \<Rightarrow> [] | Some key \<Rightarrow> [CacheGet key])"

definition lookup_entries ::
  "config \<Rightarrow> 'd env \<Rightarrow> shim_state \<Rightarrow> jsval \<Rightarrow> (string \<rightharpoonup> cache_entry)" where
  "lookup_entries CONFIG E st request =
     (case createKey request of
        None \<Rightarrow> entries st
      | Some key \<Rightarrow> fst (cache_get CONFIG (now_get E) (entries st) key))"



text \<open>
  The defaults of \<^verbatim>\<open>CONFIG\<close> (lines 30-56, with no environment variable set), the state
  at start-up, and an environment for the examples: the clock reads 1000,
  \<^verbatim>\<open>Math.random()\<close> gives 1/2, and numbers are rationals with exact arithmetic (for
  the numbers of the examples the engine's doubles give the same delays: \<^verbatim>\<open>0.5 * 0.2\<close>
  is \<^verbatim>\<open>0.1\<close> and \<^verbatim>\<open>0.9 + 0.1\<close> is \<^verbatim>\<open>1\<close>).
\<close>

definition default_config :: config where
  "default_config =
     \<lparr>proxyUrl = ''http://localhost:9876'', serverName = ''filesystem'', apiKey = [],
      maxRequestSize = 5242880, rateLimitPerMinute = 60, allowedPaths = [],
      responseCache = True, cacheTTLMs = 300000, timeout = 30000, maxRetries = 3,
      retryInitialDelayMs = 100, retryMaxDelayMs = 5000\<rparr>"

definition initial_state :: shim_state where
  "initial_state = \<lparr>entries = Map.empty, requests = []\<rparr>"

definition example_env :: "(nat \<Rightarrow> fetch_call) \<Rightarrow> rat env" where
  "example_env outcomes =
     \<lparr>now_check = 1000, now_record = 1000, now_get = 1000, now_set = 1000,
      fetch = outcomes, random = (\<lambda>attempt. 1 / 2),
      number = of_int, num_0_9 = 9 / 10, num_0_2 = 2 / 10,
      num_mul = (\<lambda>x y. x * y), num_add = (\<lambda>x y. x + y),
      num_pow = (\<lambda>x y. x ^ nat \<lfloor>y\<rfloor>), num_min = min, num_le = (\<lambda>x y. x \<le> y)\<rparr>"

definition refused :: fetch_call where
  "refused =
     \<lparr>latency = 3,
      settles = Rejected \<lparr>err_name = ''FetchError'', err_message = ''connect ECONNREFUSED''\<rparr>\<rparr>"

definition hung :: fetch_call where
  "hung = \<lparr>latency = 45000,
           settles = Rejected \<lparr>err_name = ''FetchError'', err_message = ''socket hang up''\<rparr>\<rparr>"

definition stalled :: "jsval \<Rightarrow> fetch_call" where
  "stalled body =
     \<lparr>latency = 20,
      settles = Responded \<lparr>status = 200, body_text = stringify_text body,
                           body_json = Inr body, body_ms = 60000\<rparr>\<rparr>"

definition replied :: "int \<Rightarrow> jsval \<Rightarrow> fetch_call" where
  "replied code body =
     \<lparr>latency = 20,
      settles = Responded \<lparr>status = code, body_text = stringify_text body,
                           body_json = Inr body, body_ms = 5\<rparr>\<rparr>"

text \<open>
  The request of the spec's end-to-end scenario, and a call of a mutating tool.
\<close>

definition read_request :: jsval where
  "read_request =
     JObj [(''jsonrpc'', JStr ''2.0''), (''id'', JNum 1), (''method'', JStr ''tools/call''),
           (''params'', JObj [(''name'', JStr ''read_file''),
                              (''arguments'', JObj [(''path'', JStr ''/tmp/x'')])])]"

definition write_request :: jsval where
  "write_request =
     JObj [(''jsonrpc'', JStr ''2.0''), (''id'', JNum 2), (''method'', JStr ''tools/call''),
           (''params'', JObj [(''name'', JStr ''write_file''),
                              (''arguments'', JObj [(''path'', JStr ''/tmp/x''),
                                                    (''content'', JStr ''hi'')])])]"


definition success_body :: "jsval \<Rightarrow> jsval" where
  "success_body ident =
     JObj [(''jsonrpc'', JStr ''2.0''), (''id'', ident),
           (''result'', JObj [(''content'', JStr ''hi'')])]"

text \<open>
  What may follow a value in the text \<^verbatim>\<open>JSON.stringify\<close> prints: nothing, a comma or a
  closing bracket.
\<close>

definition delimited :: "string \<Rightarrow> bool" where
  "delimited r = (r = [] \<or> hd r = CHR '','' \<or> hd r = CHR '']'' \<or> hd r = CHR ''}'')"

section \<open>Evaluation\<close>

text \<open>The equations that evaluate the model on a concrete input.\<close>

lemmas eval_defs = forwardToProxy_def default_config_def example_env_def initial_state_def
  stringify_text_def show_int_def show_nat.simps digit_def quote_def quote_char_def byteLength_def
  isLimitExceeded_def addRequest_def createKey_def isUncacheable_def writeOperations_def
  cache_get_def cache_set_def try_attempt_def ok_def replied_def refused_def hung_def stalled_def
  abort_error_def timer_ms_def createErrorResponse_def unreachable_def backoff_def jitter_def Let_def

lemmas eval_more = reaches_proxy_def lookup_events_def lookup_entries_def post_event_def
  read_request_def write_request_def success_body_def

lemmas eval_path = sanitizePath_def posix_def posix_normalize_def posix_isAbsolute_def Let_def


section \<open>Rate limiter\<close>






section \<open>Forwarder\<close>






subsection \<open>The retry loop, case by case\<close>

lemma retry_loop_done:
  "\<not> int a \<le> maxRetries CONFIG
     \<Longrightarrow> retry_loop CONFIG E request key ents a lastError = (ents, [], unreachable request lastError)"
  by (subst retry_loop.simps) simp

lemma retry_loop_success:
  "int a \<le> maxRetries CONFIG \<Longrightarrow> try_attempt CONFIG E key ents a = Inr (ents', evs, d)
     \<Longrightarrow> retry_loop CONFIG E request key ents a lastError = (ents', post_event CONFIG request # evs, d)"
  by (subst retry_loop.simps) simp

lemma retry_loop_abort:
  "int a \<le> maxRetries CONFIG \<Longrightarrow> try_attempt CONFIG E key ents a = Inl e
     \<Longrightarrow> err_name e = ''AbortError''
     \<Longrightarrow> retry_loop CONFIG E request key ents a lastError =
           (ents, [post_event CONFIG request],
            createErrorResponse (get request ''id'') (- 32000)
              (JStr (''Request timed out after '' @ show_int (timeout CONFIG) @ ''ms'')))"
  by (subst retry_loop.simps) simp

lemma retry_loop_last:
  "int a \<le> maxRetries CONFIG \<Longrightarrow> try_attempt CONFIG E key ents a = Inl e
     \<Longrightarrow> err_name e \<noteq> ''AbortError'' \<Longrightarrow> int a \<ge> maxRetries CONFIG
     \<Longrightarrow> retry_loop CONFIG E request key ents a lastError =
           (ents, [post_event CONFIG request], unreachable request (Some e))"
  by (subst retry_loop.simps) simp

lemma retry_loop_retry:
  "int a \<le> maxRetries CONFIG \<Longrightarrow> try_attempt CONFIG E key ents a = Inl e
     \<Longrightarrow> err_name e \<noteq> ''AbortError'' \<Longrightarrow> \<not> int a \<ge> maxRetries CONFIG
     \<Longrightarrow> retry_loop CONFIG E request key ents a lastError =
           (case retry_loop CONFIG E request key ents (Suc a) (Some e) of
              (ents', evs, response) \<Rightarrow>
                (ents', post_event CONFIG request # Delay (backoff CONFIG E a) # evs, response))"
  by (subst retry_loop.simps) simp


subsection \<open>The text of a JSON value determines the value\<close>

text \<open>
  \<^verbatim>\<open>JSON.stringify\<close> prints two different JSON values as two different texts: a number
  ends where the digits end, a string at its closing quote (a quote inside is escaped),
  and an array or an object lists its parts in order between brackets.
\<close>

lemma digit_inj: "a < 10 \<Longrightarrow> b < 10 \<Longrightarrow> digit a = digit b \<Longrightarrow> a = b"
proof -
  assume a: "a < 10" and b: "b < 10" and e: "digit a = digit b"
  have d: "distinct ''0123456789''" by simp
  have "a < length ''0123456789''" "b < length ''0123456789''" using a b by simp_all
  with d e show ?thesis unfolding digit_def by (simp only: nth_eq_iff_index_eq)
qed

lemma digit_mem: "d < 10 \<Longrightarrow> digit d \<in> set ''0123456789''"
  unfolding digit_def by (rule nth_mem) simp

lemma show_nat_digits: "set (show_nat n) \<subseteq> set ''0123456789'' \<and> show_nat n \<noteq> []"
proof (induction n rule: show_nat.induct)
  case (1 n)
  show ?case
  proof (cases "n < 10")
    case True
    then show ?thesis using digit_mem [of n] by (subst (1 2) show_nat.simps) simp
  next
    case False
    have "n mod 10 < 10" by simp
    then have "digit (n mod 10) \<in> set ''0123456789''" by (rule digit_mem)
    then show ?thesis using False "1.IH" by (subst (1 2) show_nat.simps) auto
  qed
qed

lemma show_nat_small: "n < 10 \<Longrightarrow> show_nat n = [digit n]"
  by (subst show_nat.simps) simp

lemma show_nat_big: "\<not> n < 10 \<Longrightarrow> show_nat n = show_nat (n div 10) @ [digit (n mod 10)]"
  by (subst show_nat.simps) simp

lemma show_nat_inj: "show_nat a = show_nat b \<Longrightarrow> a = b"
proof (induction a arbitrary: b rule: show_nat.induct)
  case (1 n)
  show ?case
  proof (cases "n < 10")
    case small: True
    show ?thesis
    proof (cases "b < 10")
      case True
      have "[digit n] = [digit b]"
        using "1.prems" show_nat_small [OF small] show_nat_small [OF True] by simp
      then show ?thesis using digit_inj [OF small True] by simp
    next
      case False
      have "[digit n] = show_nat (b div 10) @ [digit (b mod 10)]"
        using "1.prems" show_nat_small [OF small] show_nat_big [OF False] by simp
      then show ?thesis using show_nat_digits [of "b div 10"] by (simp add: Cons_eq_append_conv)
    qed
  next
    case big: False
    show ?thesis
    proof (cases "b < 10")
      case True
      have "show_nat (n div 10) @ [digit (n mod 10)] = [digit b]"
        using "1.prems" show_nat_small [OF True] show_nat_big [OF big] by simp
      then show ?thesis using show_nat_digits [of "n div 10"] by (simp add: append_eq_Cons_conv)
    next
      case False
      have eq: "show_nat (n div 10) @ [digit (n mod 10)] = show_nat (b div 10) @ [digit (b mod 10)]"
        using "1.prems" show_nat_big [OF big] show_nat_big [OF False] by simp
      then have s: "show_nat (n div 10) = show_nat (b div 10)"
        and d: "digit (n mod 10) = digit (b mod 10)"
        by simp_all
      have q: "n div 10 = b div 10" using s by (rule "1.IH" [OF big])
      have m: "n mod 10 = b mod 10" using d by (intro digit_inj) simp_all
      have "n div 10 * 10 + n mod 10 = b div 10 * 10 + b mod 10" using q m by simp
      then show ?thesis by (simp only: div_mult_mod_eq)
    qed
  qed
qed

lemma takeWhile_stop: "r = [] \<or> \<not> P (hd r) \<Longrightarrow> takeWhile P r = []"
  by (cases r) auto

lemma same_class_prefix:
  assumes "\<forall>x\<in>set xs. P x" and "\<forall>y\<in>set ys. P y"
    and "r = [] \<or> \<not> P (hd r)" and "r' = [] \<or> \<not> P (hd r')"
    and "xs @ r = ys @ r'"
  shows "xs = ys \<and> r = r'"
proof -
  have t: "takeWhile P r = []" "takeWhile P r' = []"
    using assms(3,4) takeWhile_stop [of r P] takeWhile_stop [of r' P] by blast+
  have "takeWhile P (xs @ r) = xs"
    using assms(1) t(1) by (simp add: takeWhile_append2)
  moreover have "takeWhile P (ys @ r') = ys"
    using assms(2) t(2) by (simp add: takeWhile_append2)
  ultimately have "xs = ys" using assms(5) by simp
  then show ?thesis using assms(5) by simp
qed


lemma delimited_not_digit:
  "delimited r \<Longrightarrow> r = [] \<or> \<not> (hd r \<in> set ''0123456789'')"
  by (auto simp: delimited_def)

lemma show_nat_prefix:
  assumes "delimited r" and "delimited r'" and "show_nat a @ r = show_nat b @ r'"
  shows "a = b \<and> r = r'"
proof -
  have "show_nat a = show_nat b \<and> r = r'"
  proof (rule same_class_prefix [where P = "\<lambda>c. c \<in> set ''0123456789''"])
    show "\<forall>x\<in>set (show_nat a). x \<in> set ''0123456789''" using show_nat_digits [of a] by blast
    show "\<forall>y\<in>set (show_nat b). y \<in> set ''0123456789''" using show_nat_digits [of b] by blast
    show "r = [] \<or> \<not> (hd r \<in> set ''0123456789'')" using assms(1) by (rule delimited_not_digit)
    show "r' = [] \<or> \<not> (hd r' \<in> set ''0123456789'')" using assms(2) by (rule delimited_not_digit)
    show "show_nat a @ r = show_nat b @ r'" by (rule assms(3))
  qed
  then show ?thesis using show_nat_inj by blast
qed

lemma show_nat_hd: "hd (show_nat n) \<in> set ''0123456789''"
  using show_nat_digits [of n] by (cases "show_nat n") auto

lemma show_int_prefix:
  assumes "delimited r" and "delimited r'" and "show_int n @ r = show_int m @ r'"
  shows "n = m \<and> r = r'"
proof (cases "n < 0")
  case nn: True
  show ?thesis
  proof (cases "m < 0")
    case True
    have "show_nat (nat (- n)) @ r = show_nat (nat (- m)) @ r'"
      using assms(3) nn True by (simp add: show_int_def)
    then have "nat (- n) = nat (- m) \<and> r = r'"
      using assms(1,2) by (intro show_nat_prefix)
    then show ?thesis using nn True by auto
  next
    case False
    have "CHR ''-'' # show_nat (nat (- n)) @ r = show_nat (nat m) @ r'"
      using assms(3) nn False by (simp add: show_int_def)
    then have "hd (show_nat (nat m)) = CHR ''-''"
      using show_nat_digits [of "nat m"] by (cases "show_nat (nat m)") auto
    then show ?thesis using show_nat_hd [of "nat m"] by simp
  qed
next
  case pn: False
  show ?thesis
  proof (cases "m < 0")
    case True
    have "show_nat (nat n) @ r = CHR ''-'' # show_nat (nat (- m)) @ r'"
      using assms(3) pn True by (simp add: show_int_def)
    then have "hd (show_nat (nat n)) = CHR ''-''"
      using show_nat_digits [of "nat n"] by (cases "show_nat (nat n)") auto
    then show ?thesis using show_nat_hd [of "nat n"] by simp
  next
    case False
    have "show_nat (nat n) @ r = show_nat (nat m) @ r'"
      using assms(3) pn False by (simp add: show_int_def)
    then have "nat n = nat m \<and> r = r'"
      using assms(1,2) by (intro show_nat_prefix)
    then show ?thesis using pn False by auto
  qed
qed

lemma hex_digit_inj: "a < 16 \<Longrightarrow> b < 16 \<Longrightarrow> hex_digit a = hex_digit b \<Longrightarrow> a = b"
proof -
  assume a: "a < 16" and b: "b < 16" and e: "hex_digit a = hex_digit b"
  have d: "distinct ''0123456789abcdef''" by simp
  have "a < length ''0123456789abcdef''" "b < length ''0123456789abcdef''" using a b by simp_all
  with d e show ?thesis unfolding hex_digit_def by (simp only: nth_eq_iff_index_eq)
qed


lemma quote_char_shape:
  "(quote_char c = [c] \<and> c \<noteq> CHR 0x5C \<and> c \<noteq> CHR 0x22)
   \<or> (\<exists>t. quote_char c = [CHR 0x5C, t] \<and> t \<noteq> CHR ''u''
          \<and> (c, t) \<in> {(CHR 0x22, CHR 0x22), (CHR 0x5C, CHR 0x5C), (CHR 0x08, CHR ''b''),
                       (CHR 0x09, CHR ''t''), (CHR 0x0A, CHR ''n''), (CHR 0x0C, CHR ''f''),
                       (CHR 0x0D, CHR ''r'')})
   \<or> ((of_char c :: nat) < 32
       \<and> quote_char c = [CHR 0x5C, CHR ''u'', CHR ''0'', CHR ''0'',
                          hex_digit (of_char c div 16), hex_digit (of_char c mod 16)])"
  by (simp add: quote_char_def)

lemma unicode_escape_inj:
  assumes "(of_char c :: nat) < 32" and "(of_char c' :: nat) < 32"
    and "hex_digit (of_char c div 16) = hex_digit (of_char c' div 16)"
    and "hex_digit (of_char c mod 16) = hex_digit (of_char c' mod 16)"
  shows "c = c'"
proof -
  let ?n = "of_char c :: nat" and ?m = "of_char c' :: nat"
  have "?n div 16 < 16" "?m div 16 < 16" using assms(1,2) by simp_all
  then have q: "?n div 16 = ?m div 16" using assms(3) by (intro hex_digit_inj)
  have "?n mod 16 < 16" "?m mod 16 < 16" by simp_all
  then have m: "?n mod 16 = ?m mod 16" using assms(4) by (intro hex_digit_inj)
  have "?n div 16 * 16 + ?n mod 16 = ?m div 16 * 16 + ?m mod 16" using q m by simp
  then have "?n = ?m" by (simp only: div_mult_mod_eq)
  then show ?thesis by simp
qed

lemma quote_char_prefix_free:
  assumes "quote_char c @ X = quote_char c' @ X'"
  shows "c = c' \<and> X = X'"
  using quote_char_shape [of c] quote_char_shape [of c'] assms
  by (elim disjE conjE exE) (auto dest: unicode_escape_inj)

lemma quote_char_not_quote: "quote_char c @ X \<noteq> CHR 0x22 # Y"
  using quote_char_shape [of c] by auto


lemma quoted_body_prefix:
  "concat (map quote_char s) @ CHR 0x22 # r = concat (map quote_char s') @ CHR 0x22 # r'
     \<Longrightarrow> s = s' \<and> r = r'"
proof (induction s arbitrary: s')
  case Nil
  show ?case
  proof (cases s')
    case Nil
    with Nil.prems show ?thesis by simp
  next
    case (Cons c cs)
    with Nil.prems have "quote_char c @ (concat (map quote_char cs) @ CHR 0x22 # r') = CHR 0x22 # r"
      by simp
    then show ?thesis using quote_char_not_quote by blast
  qed
next
  case (Cons c s)
  show ?case
  proof (cases s')
    case Nil
    with Cons.prems have "quote_char c @ (concat (map quote_char s) @ CHR 0x22 # r) = CHR 0x22 # r'"
      by simp
    then show ?thesis using quote_char_not_quote by blast
  next
    case (Cons c' cs')
    with Cons.prems have
      "quote_char c @ (concat (map quote_char s) @ CHR 0x22 # r)
         = quote_char c' @ (concat (map quote_char cs') @ CHR 0x22 # r')"
      by simp
    then have "c = c'"
      and "concat (map quote_char s) @ CHR 0x22 # r = concat (map quote_char cs') @ CHR 0x22 # r'"
      using quote_char_prefix_free by blast+
    then show ?thesis using Cons.IH Cons by blast
  qed
qed

lemma quote_prefix: "quote s @ r = quote s' @ r' \<Longrightarrow> s = s' \<and> r = r'"
  using quoted_body_prefix [of s r s' r'] by (simp add: quote_def)

lemma json_stringify: "json v \<Longrightarrow> stringify v = Some (stringify_text v)"
  by (cases v) (simp_all add: stringify_text_def)

lemma json_elems_text: "json_elems xs \<Longrightarrow> stringify_elems xs = map stringify_text xs"
  by (induction xs) (simp_all add: json_stringify)

lemma json_props_text:
  "json_props ps
     \<Longrightarrow> stringify_props ps = map (\<lambda>p. quote (fst p) @ '':'' @ stringify_text (snd p)) ps"
  by (induction ps) (simp_all add: json_stringify)

lemma json_elems_set: "json_elems xs \<Longrightarrow> x \<in> set xs \<Longrightarrow> json x"
  by (induction xs) auto

lemma json_props_set: "json_props ps \<Longrightarrow> p \<in> set ps \<Longrightarrow> json (snd p)"
  by (induction ps) auto

lemma text_head:
  assumes "json v"
  shows "\<exists>c rest. stringify_text v = c # rest
           \<and> (case v of
                 JUndefined \<Rightarrow> False
               | JNull \<Rightarrow> c = CHR ''n''
               | JBool b \<Rightarrow> c = CHR ''t'' \<or> c = CHR ''f''
               | JNum n \<Rightarrow> c \<in> set ''-0123456789''
               | JStr s \<Rightarrow> c = CHR 0x22
               | JArr xs \<Rightarrow> c = CHR ''[''
               | JObj ps \<Rightarrow> c = CHR ''{'')"
proof (cases v)
  case (JNum n)
  have "show_nat (nat n) \<noteq> []" "show_nat (nat (- n)) \<noteq> []"
    using show_nat_digits by blast+
  then obtain c rest where cr: "show_int n = c # rest"
    by (cases "show_int n") (auto simp: show_int_def split: if_splits)
  have "c \<in> set ''-0123456789''"
    using cr show_nat_hd [of "nat n"] by (auto simp: show_int_def split: if_splits)
  then show ?thesis using JNum cr by (simp add: stringify_text_def)
qed (use assms in \<open>auto simp: stringify_text_def quote_def\<close>)


lemma join_concat: "join s (x # xs) = x @ concat (map (\<lambda>y. s @ y) xs)"
  by (induction xs arbitrary: x) simp_all

lemma delimited_elems: "delimited (concat (map (\<lambda>y. CHR '','' # f y) xs) @ CHR '']'' # r)"
  by (cases xs) (simp_all add: delimited_def)

lemma delimited_props: "delimited (concat (map (\<lambda>y. CHR '','' # f y) xs) @ CHR ''}'' # r)"
  by (cases xs) (simp_all add: delimited_def)

lemma same_shape:
  assumes "json v" "json v'" "stringify_text v @ r = stringify_text v' @ r'"
  shows "case v of
           JUndefined \<Rightarrow> False
         | JNull \<Rightarrow> v' = JNull
         | JBool b \<Rightarrow> (\<exists>b'. v' = JBool b')
         | JNum n \<Rightarrow> (\<exists>n'. v' = JNum n')
         | JStr s \<Rightarrow> (\<exists>s'. v' = JStr s')
         | JArr xs \<Rightarrow> (\<exists>xs'. v' = JArr xs')
         | JObj ps \<Rightarrow> (\<exists>ps'. v' = JObj ps')"
proof -
  obtain c rest where h: "stringify_text v = c # rest"
    and k: "case v of
                 JUndefined \<Rightarrow> False
               | JNull \<Rightarrow> c = CHR ''n''
               | JBool b \<Rightarrow> c = CHR ''t'' \<or> c = CHR ''f''
               | JNum n \<Rightarrow> c \<in> set ''-0123456789''
               | JStr s \<Rightarrow> c = CHR 0x22
               | JArr xs \<Rightarrow> c = CHR ''[''
               | JObj ps \<Rightarrow> c = CHR ''{''"
    using text_head [OF assms(1)] by blast
  obtain c' rest' where h': "stringify_text v' = c' # rest'"
    and k': "case v' of
                 JUndefined \<Rightarrow> False
               | JNull \<Rightarrow> c' = CHR ''n''
               | JBool b \<Rightarrow> c' = CHR ''t'' \<or> c' = CHR ''f''
               | JNum n \<Rightarrow> c' \<in> set ''-0123456789''
               | JStr s \<Rightarrow> c' = CHR 0x22
               | JArr xs \<Rightarrow> c' = CHR ''[''
               | JObj ps \<Rightarrow> c' = CHR ''{''"
    using text_head [OF assms(2)] by blast
  have "c = c'" using assms(3) h h' by simp
  with k k' show ?thesis by (cases v; cases v') auto
qed

lemma value_not_closing:
  assumes "json v"
  shows "stringify_text v @ X \<noteq> CHR '']'' # Y" and "stringify_text v @ X \<noteq> CHR ''}'' # Y"
  using text_head [OF assms] by (cases v; auto)+

lemma elems_tail_prefix:
  assumes el: "\<And>x w r r'. x \<in> set xs \<Longrightarrow> json w \<Longrightarrow> delimited r \<Longrightarrow> delimited r'
                 \<Longrightarrow> stringify_text x @ r = stringify_text w @ r' \<Longrightarrow> x = w \<and> r = r'"
    and "json_elems ys"
    and "concat (map (\<lambda>y. CHR '','' # stringify_text y) xs) @ CHR '']'' # r
           = concat (map (\<lambda>y. CHR '','' # stringify_text y) ys) @ CHR '']'' # r'"
  shows "xs = ys \<and> r = r'"
  using assms
proof (induction xs arbitrary: ys)
  case Nil
  then show ?case by (cases ys) simp_all
next
  case (Cons x xs)
  show ?case
  proof (cases ys)
    case Nil
    with Cons.prems(3) show ?thesis by simp
  next
    case ys: (Cons y ys')
    let ?R = "concat (map (\<lambda>y. CHR '','' # stringify_text y) xs) @ CHR '']'' # r"
    let ?R' = "concat (map (\<lambda>y. CHR '','' # stringify_text y) ys') @ CHR '']'' # r'"
    have eq: "stringify_text x @ ?R = stringify_text y @ ?R'"
      using Cons.prems(3) ys by simp
    have jy: "json y" and jys: "json_elems ys'" using Cons.prems(2) ys by simp_all
    have "x = y \<and> ?R = ?R'"
      by (rule Cons.prems(1) [OF _ jy delimited_elems delimited_elems eq]) simp
    moreover have "xs = ys' \<and> r = r'" if "?R = ?R'"
      by (rule Cons.IH [OF _ jys that]) (rule Cons.prems(1), simp_all)
    ultimately show ?thesis using ys by simp
  qed
qed

lemma props_tail_prefix:
  assumes el: "\<And>p w r r'. p \<in> set ps \<Longrightarrow> json w \<Longrightarrow> delimited r \<Longrightarrow> delimited r'
                 \<Longrightarrow> stringify_text (snd p) @ r = stringify_text w @ r' \<Longrightarrow> snd p = w \<and> r = r'"
    and "json_props qs"
    and "concat (map (\<lambda>p. CHR '','' # quote (fst p) @ CHR '':'' # stringify_text (snd p)) ps) @ CHR ''}'' # r
           = concat (map (\<lambda>p. CHR '','' # quote (fst p) @ CHR '':'' # stringify_text (snd p)) qs) @ CHR ''}'' # r'"
  shows "ps = qs \<and> r = r'"
  using assms
proof (induction ps arbitrary: qs)
  case Nil
  then show ?case by (cases qs) simp_all
next
  case (Cons p ps)
  show ?case
  proof (cases qs)
    case Nil
    with Cons.prems(3) show ?thesis by simp
  next
    case qs: (Cons q qs')
    let ?f = "\<lambda>p. CHR '','' # quote (fst p) @ CHR '':'' # stringify_text (snd p)"
    let ?R = "concat (map ?f ps) @ CHR ''}'' # r"
    let ?R' = "concat (map ?f qs') @ CHR ''}'' # r'"
    have "quote (fst p) @ (CHR '':'' # stringify_text (snd p) @ ?R)
            = quote (fst q) @ (CHR '':'' # stringify_text (snd q) @ ?R')"
      using Cons.prems(3) qs by simp
    then have k: "fst p = fst q"
      and eq: "stringify_text (snd p) @ ?R = stringify_text (snd q) @ ?R'"
      using quote_prefix by blast+
    have jq: "json (snd q)" and jqs: "json_props qs'" using Cons.prems(2) qs by simp_all
    have "snd p = snd q \<and> ?R = ?R'"
      by (rule Cons.prems(1) [OF _ jq delimited_props delimited_props eq]) simp
    moreover have "ps = qs' \<and> r = r'" if "?R = ?R'"
      by (rule Cons.IH [OF _ jqs that]) (rule Cons.prems(1), simp_all)
    ultimately show ?thesis using qs k by (simp add: prod_eq_iff)
  qed
qed


lemma arr_text:
  "json_elems xs \<Longrightarrow> stringify_text (JArr xs)
     = CHR ''['' # (case xs of [] \<Rightarrow> [] | x # xs' \<Rightarrow>
         stringify_text x @ concat (map (\<lambda>y. CHR '','' # stringify_text y) xs')) @ '']''"
proof -
  assume j: "json_elems xs"
  have "stringify_text (JArr xs) = ''['' @ join '','' (map stringify_text xs) @ '']''"
    unfolding stringify_text_def [of "JArr xs"] by (simp add: json_elems_text [OF j])
  then show ?thesis by (cases xs) (simp_all add: join_concat o_def)
qed

lemma obj_text:
  "json_props ps \<Longrightarrow> stringify_text (JObj ps)
     = CHR ''{'' # (case ps of [] \<Rightarrow> [] | p # ps' \<Rightarrow>
         quote (fst p) @ CHR '':'' # stringify_text (snd p)
           @ concat (map (\<lambda>p. CHR '','' # quote (fst p) @ CHR '':'' # stringify_text (snd p)) ps')) @ ''}''"
proof -
  assume j: "json_props ps"
  have "stringify_text (JObj ps)
          = ''{'' @ join '','' (map (\<lambda>p. quote (fst p) @ '':'' @ stringify_text (snd p)) ps) @ ''}''"
    unfolding stringify_text_def [of "JObj ps"] by (simp add: json_props_text [OF j])
  then show ?thesis by (cases ps) (simp_all add: join_concat o_def)
qed

lemma arr_prefix:
  assumes el: "\<And>x w r r'. x \<in> set xs \<Longrightarrow> json w \<Longrightarrow> delimited r \<Longrightarrow> delimited r'
                 \<Longrightarrow> stringify_text x @ r = stringify_text w @ r' \<Longrightarrow> x = w \<and> r = r'"
    and jx: "json_elems xs" and jy: "json_elems ys"
    and eq: "stringify_text (JArr xs) @ r = stringify_text (JArr ys) @ r'"
  shows "xs = ys \<and> r = r'"
proof -
  let ?g = "\<lambda>xs. case xs of [] \<Rightarrow> [] | x # xs' \<Rightarrow>
         stringify_text x @ concat (map (\<lambda>y. CHR '','' # stringify_text y) xs')"
  have eq0: "?g xs @ CHR '']'' # r = ?g ys @ CHR '']'' # r'"
    using eq by (simp add: arr_text [OF jx] arr_text [OF jy])
  show ?thesis
  proof (cases xs)
    case Nil
    show ?thesis
    proof (cases ys)
      case ys: Nil
      with Nil eq0 show ?thesis by simp
    next
      case ys: (Cons y ys')
      have "json y" using jy ys by simp
      from value_not_closing(1) [OF this]
      have "stringify_text y @ (concat (map (\<lambda>y. CHR '','' # stringify_text y) ys') @ CHR '']'' # r')
              \<noteq> CHR '']'' # r" .
      with eq0 Nil ys show ?thesis by simp
    qed
  next
    case (Cons x xs')
    show ?thesis
    proof (cases ys)
      case ys: Nil
      have "json x" using jx Cons by simp
      from value_not_closing(1) [OF this]
      have "stringify_text x @ (concat (map (\<lambda>y. CHR '','' # stringify_text y) xs') @ CHR '']'' # r)
              \<noteq> CHR '']'' # r'" .
      with eq0 Cons ys show ?thesis by simp
    next
      case ys: (Cons y ys')
      let ?R = "concat (map (\<lambda>y. CHR '','' # stringify_text y) xs') @ CHR '']'' # r"
      let ?R' = "concat (map (\<lambda>y. CHR '','' # stringify_text y) ys') @ CHR '']'' # r'"
      have eq1: "stringify_text x @ ?R = stringify_text y @ ?R'"
        using eq0 Cons ys by simp
      have jy': "json y" and jys: "json_elems ys'" using jy ys by simp_all
      have "x = y \<and> ?R = ?R'"
        by (rule el [OF _ jy' delimited_elems delimited_elems eq1]) (simp add: Cons)
      moreover have "xs' = ys' \<and> r = r'" if "?R = ?R'"
        by (rule elems_tail_prefix [OF _ jys that]) (rule el, simp_all add: Cons)
      ultimately show ?thesis using Cons ys by simp
    qed
  qed
qed

lemma obj_prefix:
  assumes el: "\<And>p w r r'. p \<in> set ps \<Longrightarrow> json w \<Longrightarrow> delimited r \<Longrightarrow> delimited r'
                 \<Longrightarrow> stringify_text (snd p) @ r = stringify_text w @ r' \<Longrightarrow> snd p = w \<and> r = r'"
    and jp: "json_props ps" and jq: "json_props qs"
    and eq: "stringify_text (JObj ps) @ r = stringify_text (JObj qs) @ r'"
  shows "ps = qs \<and> r = r'"
proof -
  let ?f = "\<lambda>p. CHR '','' # quote (fst p) @ CHR '':'' # stringify_text (snd p)"
  let ?g = "\<lambda>ps. case ps of [] \<Rightarrow> [] | p # ps' \<Rightarrow>
         quote (fst p) @ CHR '':'' # stringify_text (snd p) @ concat (map ?f ps')"
  have eq0: "?g ps @ CHR ''}'' # r = ?g qs @ CHR ''}'' # r'"
    using eq by (simp add: obj_text [OF jp] obj_text [OF jq])
  show ?thesis
  proof (cases ps)
    case Nil
    show ?thesis
    proof (cases qs)
      case qs: Nil
      with Nil eq0 show ?thesis by simp
    next
      case qs: (Cons q qs')
      with eq0 Nil show ?thesis by (simp add: quote_def)
    qed
  next
    case (Cons p ps')
    show ?thesis
    proof (cases qs)
      case qs: Nil
      with eq0 Cons show ?thesis by (simp add: quote_def)
    next
      case qs: (Cons q qs')
      let ?R = "concat (map ?f ps') @ CHR ''}'' # r"
      let ?R' = "concat (map ?f qs') @ CHR ''}'' # r'"
      have "quote (fst p) @ (CHR '':'' # stringify_text (snd p) @ ?R)
              = quote (fst q) @ (CHR '':'' # stringify_text (snd q) @ ?R')"
        using eq0 Cons qs by simp
      then have k: "fst p = fst q"
        and eq1: "stringify_text (snd p) @ ?R = stringify_text (snd q) @ ?R'"
        using quote_prefix by blast+
      have jq': "json (snd q)" and jqs: "json_props qs'" using jq qs by simp_all
      have "snd p = snd q \<and> ?R = ?R'"
        by (rule el [OF _ jq' delimited_props delimited_props eq1]) (simp add: Cons)
      moreover have "ps' = qs' \<and> r = r'" if "?R = ?R'"
        by (rule props_tail_prefix [OF _ jqs that]) (rule el, simp_all add: Cons)
      ultimately show ?thesis using Cons qs k by (simp add: prod_eq_iff)
    qed
  qed
qed

lemma stringify_text_prefix:
  "json v \<Longrightarrow> json v' \<Longrightarrow> delimited r \<Longrightarrow> delimited r'
     \<Longrightarrow> stringify_text v @ r = stringify_text v' @ r' \<Longrightarrow> v = v' \<and> r = r'"
proof (induction v arbitrary: v' r r')
  case JUndefined
  then show ?case by simp
next
  case JNull
  from same_shape [OF JNull.prems(1,2,5)] have "v' = JNull" by simp
  with JNull.prems(5) show ?case by (simp add: stringify_text_def)
next
  case (JBool b)
  from same_shape [OF JBool.prems(1,2,5)] obtain b' where "v' = JBool b'" by auto
  with JBool.prems(5) show ?case by (simp add: stringify_text_def split: if_splits)
next
  case (JNum n)
  from same_shape [OF JNum.prems(1,2,5)] obtain n' where v': "v' = JNum n'" by auto
  with JNum.prems(5) have "show_int n @ r = show_int n' @ r'" by (simp add: stringify_text_def)
  from show_int_prefix [OF JNum.prems(3,4) this] v' show ?case by simp
next
  case (JStr s)
  from same_shape [OF JStr.prems(1,2,5)] obtain s' where v': "v' = JStr s'" by auto
  with JStr.prems(5) have "quote s @ r = quote s' @ r'" by (simp add: stringify_text_def)
  from quote_prefix [OF this] v' show ?case by simp
next
  case (JArr xs)
  from same_shape [OF JArr.prems(1,2,5)] obtain ys where v': "v' = JArr ys" by auto
  have jx: "json_elems xs" and jy: "json_elems ys" using JArr.prems(1,2) v' by simp_all
  have el: "x = w \<and> r = r'"
    if "x \<in> set xs" "json w" "delimited r" "delimited r'"
       "stringify_text x @ r = stringify_text w @ r'" for x w r r'
    using JArr.IH [OF that(1) json_elems_set [OF jx that(1)] that(2-5)] .
  have "xs = ys \<and> r = r'"
    by (rule arr_prefix [OF el jx jy]) (use JArr.prems(5) v' in simp_all)
  then show ?case using v' by simp
next
  case (JObj ps)
  from same_shape [OF JObj.prems(1,2,5)] obtain qs where v': "v' = JObj qs" by auto
  have jp: "json_props ps" and jq: "json_props qs" using JObj.prems(1,2) v' by simp_all
  have el: "snd p = w \<and> r = r'"
    if "p \<in> set ps" "json w" "delimited r" "delimited r'"
       "stringify_text (snd p) @ r = stringify_text w @ r'" for p w r r'
  proof -
    have "snd p \<in> Basic_BNFs.snds p" by (cases p) simp
    from JObj.IH [OF that(1) this json_props_set [OF jp that(1)] that(2-5)] show ?thesis .
  qed
  have "ps = qs \<and> r = r'"
    by (rule obj_prefix [OF el jp jq]) (use JObj.prems(5) v' in simp_all)
  then show ?case using v' by simp
qed

lemma stringify_text_inj:
  "json v \<Longrightarrow> json v' \<Longrightarrow> stringify_text v = stringify_text v' \<Longrightarrow> v = v'"
  using stringify_text_prefix [of v v' "[]" "[]"] by (simp add: delimited_def)


lemma json_text_not_undefined: "json v \<Longrightarrow> stringify_text v \<noteq> ''undefined''"
  using text_head [of v] by (cases v) auto

lemma params_text_inj:
  assumes "json v \<or> v = JUndefined" and "json v' \<or> v' = JUndefined"
    and "stringify_text v = stringify_text v'"
  shows "v = v'"
proof (cases "json v"; cases "json v'")
  assume "json v" "json v'"
  then show ?thesis using assms(3) by (rule stringify_text_inj)
next
  assume "json v" "\<not> json v'"
  with assms(2,3) json_text_not_undefined [of v] show ?thesis
    by (simp add: stringify_text_def)
next
  assume "\<not> json v" "json v'"
  with assms(1,3) json_text_not_undefined [of v'] show ?thesis
    by (simp add: stringify_text_def)
next
  assume "\<not> json v" "\<not> json v'"
  with assms(1,2) show ?thesis by simp
qed

subsection \<open>Cache keys\<close>





text \<open>
  C8 (amended). The key depends on the request only through its method and its
  parameters: two requests with the same method and the same parameter value get the
  same key, or both get none, whatever their ids and other fields. For two cacheable
  requests with the same method whose parameters are JSON values or absent, the converse
  holds too: the keys are equal exactly when the parameters are the same value, printed
  by \<^verbatim>\<open>JSON.stringify\<close> with the properties of every object in the same order.
\<close>

theorem createKey_same_method_params:
  assumes "get r1 ''method'' = get r2 ''method''"
  shows "(get r1 ''params'' = get r2 ''params'' \<longrightarrow> createKey r1 = createKey r2)
       \<and> (\<not> isUncacheable r1 \<and> \<not> isUncacheable r2
          \<and> (json (get r1 ''params'') \<or> get r1 ''params'' = JUndefined)
          \<and> (json (get r2 ''params'') \<or> get r2 ''params'' = JUndefined)
          \<longrightarrow> (createKey r1 = createKey r2 \<longleftrightarrow> get r1 ''params'' = get r2 ''params''))"
proof (intro conjI impI)
  assume "get r1 ''params'' = get r2 ''params''"
  with assms show "createKey r1 = createKey r2"
    by (simp add: createKey_def isUncacheable_def)
next
  assume h: "\<not> isUncacheable r1 \<and> \<not> isUncacheable r2
          \<and> (json (get r1 ''params'') \<or> get r1 ''params'' = JUndefined)
          \<and> (json (get r2 ''params'') \<or> get r2 ''params'' = JUndefined)"
  show "createKey r1 = createKey r2 \<longleftrightarrow> get r1 ''params'' = get r2 ''params''"
  proof
    assume "createKey r1 = createKey r2"
    with h assms have "stringify_text (get r1 ''params'') = stringify_text (get r2 ''params'')"
      by (simp add: createKey_def)
    with h show "get r1 ''params'' = get r2 ''params''" by (intro params_text_inj) simp_all
  next
    assume "get r1 ''params'' = get r2 ''params''"
    with h assms show "createKey r1 = createKey r2" by (simp add: createKey_def)
  qed
qed

theorem createKey_same_method_params_witness:
  "createKey read_request
     = createKey (JObj [(''method'', JStr ''tools/call''),
                        (''params'', JObj [(''name'', JStr ''read_file''),
                                           (''arguments'', JObj [(''path'', JStr ''/tmp/x'')])]),
                        (''id'', JStr ''other'')])
   \<and> \<not> isUncacheable (JObj [(''id'', JNum 1), (''method'', JStr ''resources/read''),
                              (''params'', JObj [(''uri'', JStr ''file:///a''), (''depth'', JNum 2)])])
   \<and> \<not> isUncacheable (JObj [(''id'', JNum 2), (''method'', JStr ''resources/read''),
                              (''params'', JObj [(''depth'', JNum 2), (''uri'', JStr ''file:///a'')])])
   \<and> json (JObj [(''uri'', JStr ''file:///a''), (''depth'', JNum 2)])
   \<and> json (JObj [(''depth'', JNum 2), (''uri'', JStr ''file:///a'')])
   \<and> createKey (JObj [(''id'', JNum 1), (''method'', JStr ''resources/read''),
                       (''params'', JObj [(''uri'', JStr ''file:///a''), (''depth'', JNum 2)])])
       \<noteq> createKey (JObj [(''id'', JNum 2), (''method'', JStr ''resources/read''),
                            (''params'', JObj [(''depth'', JNum 2), (''uri'', JStr ''file:///a'')])])
   \<and> createKey (JObj [(''id'', JNum 1), (''method'', JStr ''tools/list'')])
       = createKey (JObj [(''method'', JStr ''tools/list''), (''id'', JNum 7)])"
  using createKey_same_method_params [of read_request
     "JObj [(''method'', JStr ''tools/call''),
            (''params'', JObj [(''name'', JStr ''read_file''),
                               (''arguments'', JObj [(''path'', JStr ''/tmp/x'')])]),
            (''id'', JStr ''other'')]"]
    createKey_same_method_params [of
     "JObj [(''id'', JNum 1), (''method'', JStr ''resources/read''),
            (''params'', JObj [(''uri'', JStr ''file:///a''), (''depth'', JNum 2)])]"
     "JObj [(''id'', JNum 2), (''method'', JStr ''resources/read''),
            (''params'', JObj [(''depth'', JNum 2), (''uri'', JStr ''file:///a'')])]"]
    createKey_same_method_params [of
     "JObj [(''id'', JNum 1), (''method'', JStr ''tools/list'')]"
     "JObj [(''method'', JStr ''tools/list''), (''id'', JNum 7)]"]
  by (simp add: read_request_def isUncacheable_def)

text \<open>
  The claim as stated fails: the key is built with \<^verbatim>\<open>JSON.stringify\<close>, which prints the
  properties in their order, and nothing in the code sorts them. Here two cacheable
  requests with the same method carry the same two properties in their parameters, in a
  different order, and get different keys.
\<close>

theorem createKey_key_order_counterexample:
  \<open>set [(''a'', JNum 1), (''b'', JNum 2)] = set [(''b'', JNum 2), (''a'', JNum 1)]
   \<and> createKey (JObj [(''id'', JNum 1), (''method'', JStr ''resources/read''),
                     (''params'', JObj [(''a'', JNum 1), (''b'', JNum 2)])])
       = Some ''resources/read:{"a":1,"b":2}''
   \<and> createKey (JObj [(''id'', JNum 1), (''method'', JStr ''resources/read''),
                     (''params'', JObj [(''b'', JNum 2), (''a'', JNum 1)])])
       = Some ''resources/read:{"b":2,"a":1}''
   \<and> createKey (JObj [(''id'', JNum 1), (''method'', JStr ''resources/read''),
                     (''params'', JObj [(''a'', JNum 1), (''b'', JNum 2)])])
       \<noteq> createKey (JObj [(''id'', JNum 1), (''method'', JStr ''resources/read''),
                     (''params'', JObj [(''b'', JNum 2), (''a'', JNum 1)])])\<close>
  by (simp add: createKey_def isUncacheable_def stringify_text_def show_int_def show_nat.simps
        digit_def quote_def quote_char_def insert_commute)




section \<open>Line handler\<close>

text \<open>
  C4 (amended). A line longer than \<^verbatim>\<open>CONFIG.maxRequestSize\<close> is answered with the
  invalid-request error (code -32600, message "Request too large", id null), not with
  the parse error -32700. The answer and the state do not depend on \<^verbatim>\<open>JSON.parse\<close> (it is
  not called), nothing else happens, and the run goes on with the next line from the
  same state.
\<close>

theorem oversize_line:
  assumes "int (length line) > maxRequestSize CONFIG"
  shows \<open>on_line P parse CONFIG E st line
           = (st, [Stdout ''{"jsonrpc":"2.0","id":null,"error":{"code":-32600,"message":"Request too large"}}''])
        \<and> run P parse CONFIG st ((E, line) # rest)
           = (fst (run P parse CONFIG st rest),
              Stdout ''{"jsonrpc":"2.0","id":null,"error":{"code":-32600,"message":"Request too large"}}''
              # snd (run P parse CONFIG st rest))\<close>
proof -
  have out: \<open>stringify_text (createErrorResponse JNull (- 32600) (JStr ''Request too large''))
      = ''{"jsonrpc":"2.0","id":null,"error":{"code":-32600,"message":"Request too large"}}''\<close>
    by (simp add: eval_defs)
  have l: \<open>on_line P parse CONFIG E st line
           = (st, [Stdout ''{"jsonrpc":"2.0","id":null,"error":{"code":-32600,"message":"Request too large"}}''])\<close>
    using assms by (simp add: on_line_def out)
  show ?thesis using l by (simp add: split_beta)
qed


theorem oversize_line_witness:
  \<open>on_line posix (\<lambda>line. Inr JNull) (default_config\<lparr>maxRequestSize := 3\<rparr>)
       (example_env (\<lambda>attempt. refused)) initial_state ''abcd''
   = (initial_state,
      [Stdout ''{"jsonrpc":"2.0","id":null,"error":{"code":-32600,"message":"Request too large"}}''])\<close>
  using oversize_line [of "default_config\<lparr>maxRequestSize := 3\<rparr>" "''abcd''" posix
      "\<lambda>line. Inr JNull" "example_env (\<lambda>attempt. refused)" initial_state "[]"]
  by (simp add: default_config_def)

text \<open>
  The claim as stated fails: the response written for an oversize line carries the
  code -32600, while the parse error of the handler carries -32700.
\<close>

theorem oversize_line_counterexample:
  \<open>snd (on_line posix (\<lambda>line. Inr JNull) (default_config\<lparr>maxRequestSize := 3\<rparr>)
          (example_env (\<lambda>attempt. refused)) initial_state ''abcd'')
   = [Stdout (stringify_text (createErrorResponse JNull (- 32600) (JStr ''Request too large'')))]
   \<and> get (get (createErrorResponse JNull (- 32600) (JStr ''Request too large'')) ''error'') ''code''
     = JNum (- 32600)
   \<and> get (get (parse_error_response \<lparr>err_name = ''SyntaxError'', err_message = ''Unexpected token''\<rparr>)
            ''error'') ''code''
     = JNum (- 32700)
   \<and> JNum (- 32600) \<noteq> JNum (- 32700)\<close>
  by (simp add: on_line_def default_config_def createErrorResponse_def parse_error_response_def)

section \<open>Forwarder: retries, timeout, response id\<close>
















lemma map_of_set_prop: "map_of (set_prop ps k v) k = Some v"
  by (induction ps) auto

lemma map_of_set_prop_other: "k' \<noteq> k \<Longrightarrow> map_of (set_prop ps k v) k' = map_of ps k'"
  by (induction ps) auto

lemma get_set_prop:
  "get (JObj (set_prop ps k v)) k' = (if k' = k then v else get (JObj ps) k')"
  by (simp add: map_of_set_prop map_of_set_prop_other)

lemma get_id_createErrorResponse: "get (createErrorResponse ident code message) ''id'' = ident"
  by (simp add: createErrorResponse_def)

lemma get_id_unreachable: "get (unreachable request lastError) ''id'' = get request ''id''"
  by (simp add: unreachable_def get_id_createErrorResponse)

lemma try_attempt_body:
  "try_attempt CONFIG E key ents a = Inr (ents', evs, d)
     \<Longrightarrow> \<exists>r. settles (fetch E a) = Responded r \<and> ok r \<and> body_json r = Inr d"
  by (auto simp: try_attempt_def split: fetch_outcome.splits if_splits sum.splits option.splits)

lemma retry_loop_response:
  "retry_loop CONFIG E request cacheKey ents a lastError = (ents', evs, resp)
     \<Longrightarrow> get resp ''id'' = get request ''id''
         \<or> (\<exists>i r. settles (fetch E i) = Responded r \<and> ok r \<and> body_json r = Inr resp)"
proof (induction CONFIG E request cacheKey ents a lastError arbitrary: ents' evs resp
         rule: retry_loop.induct)
  case (1 CONFIG E request cacheKey ents attempt lastError)
  show ?case
  proof (cases "int attempt \<le> maxRetries CONFIG")
    case False
    with "1.prems" show ?thesis by (auto simp: retry_loop_done get_id_unreachable)
  next
    case le: True
    show ?thesis
    proof (cases "try_attempt CONFIG E cacheKey ents attempt")
      case (Inr r)
      obtain e1 v1 d1 where r: "r = (e1, v1, d1)" by (cases r)
      have "\<exists>r. settles (fetch E attempt) = Responded r \<and> ok r \<and> body_json r = Inr d1"
        using Inr r try_attempt_body by blast
      moreover have "resp = d1"
        using "1.prems" le Inr r by (simp add: retry_loop_success)
      ultimately show ?thesis by blast
    next
      case (Inl error)
      show ?thesis
      proof (cases "err_name error = ''AbortError''")
        case True
        with "1.prems" le Inl show ?thesis
          by (auto simp: retry_loop_abort get_id_createErrorResponse)
      next
        case na: False
        show ?thesis
        proof (cases "int attempt \<ge> maxRetries CONFIG")
          case True
          with "1.prems" le Inl na show ?thesis
            by (auto simp: retry_loop_last get_id_unreachable)
        next
          case False
          obtain e2 v2 r2 where rest:
            "retry_loop CONFIG E request cacheKey ents (Suc attempt) (Some error) = (e2, v2, r2)"
            by (cases "retry_loop CONFIG E request cacheKey ents (Suc attempt) (Some error)")
          have "get r2 ''id'' = get request ''id''
                  \<or> (\<exists>i r. settles (fetch E i) = Responded r \<and> ok r \<and> body_json r = Inr r2)"
            using "1.IH" [OF le Inl na False rest] .
          moreover have "resp = r2"
            using "1.prems" le Inl na False rest by (simp add: retry_loop_retry)
          ultimately show ?thesis by blast
        qed
      qed
    qed
  qed
qed

text \<open>
  C3 (amended). Whenever \<^verbatim>\<open>forwardToProxy\<close> returns a response, either its \<^verbatim>\<open>id\<close> is the
  request's \<^verbatim>\<open>id\<close> (every error response built locally, and every cache hit, where
  the stored id is overwritten), or the response is, unchanged, the JSON body of a 2xx
  answer of the proxy: then its id is whatever the proxy sent.
\<close>

theorem response_id:
  assumes "forwardToProxy CONFIG E st request = Inr (st', events, response)"
  shows "get response ''id'' = get request ''id''
         \<or> (\<exists>i r. settles (fetch E i) = Responded r \<and> ok r \<and> body_json r = Inr response)"
proof -
  have obj: "request \<noteq> JNull \<and> request \<noteq> JUndefined"
    using assms by (auto simp: forwardToProxy_def split: if_splits)
  show ?thesis
    using assms obj
    by (auto simp: forwardToProxy_def Let_def get_id_createErrorResponse map_of_set_prop
          split: if_splits prod.splits option.splits dest!: retry_loop_response)
qed

theorem response_id_witness:
  "get (createErrorResponse (JNum 1) (- 32003)
          (JStr ''Failed to communicate with MCP proxy: connect ECONNREFUSED'')) ''id''
   = get read_request ''id''"
proof -
  have "forwardToProxy default_config (example_env (\<lambda>attempt. refused)) initial_state read_request
   = Inr (\<lparr>entries = Map.empty, requests = [1000]\<rparr>,
          [RateCheck, RateRecord,
           CacheGet (the (createKey read_request)),
           post_event default_config read_request, Delay 100,
           post_event default_config read_request, Delay 200,
           post_event default_config read_request, Delay 400,
           post_event default_config read_request],
          createErrorResponse (JNum 1) (- 32003)
            (JStr ''Failed to communicate with MCP proxy: connect ECONNREFUSED''))"
    by (simp add: eval_defs eval_more retry_loop.simps)
  from response_id [OF this] show ?thesis
    by (auto simp: example_env_def refused_def)
qed

text \<open>
  The claim as stated fails on a fresh response: the proxy answers the request with id
  1 by a body with id 2, and that body is returned (and cached) as it is.
\<close>

theorem response_id_counterexample:
  \<open>forwardToProxy default_config (example_env (\<lambda>attempt. replied 200 (success_body (JNum 2))))
     initial_state read_request
   = Inr (\<lparr>entries = [''tools/call:{"name":"read_file","arguments":{"path":"/tmp/x"}}'' \<mapsto>
                         \<lparr>cvalue = success_body (JNum 2), expiry = 301000\<rparr>],
            requests = [1000]\<rparr>,
          [RateCheck, RateRecord,
           CacheGet ''tools/call:{"name":"read_file","arguments":{"path":"/tmp/x"}}'',
           post_event default_config read_request,
           CacheSet ''tools/call:{"name":"read_file","arguments":{"path":"/tmp/x"}}''],
          success_body (JNum 2))
   \<and> get read_request ''id'' = JNum 1
   \<and> get (success_body (JNum 2)) ''id'' = JNum 2
   \<and> JNum 2 \<noteq> JNum 1\<close>
  by (simp add: eval_defs eval_more retry_loop.simps)

section \<open>Path sanitizer\<close>

lemma split_slash_no_slash:
  "CHR ''/'' \<notin> set acc \<Longrightarrow> \<forall>s\<in>set (split_slash acc p). CHR ''/'' \<notin> set s"
proof (induction p arbitrary: acc)
  case Nil
  then show ?case by simp
next
  case (Cons c p)
  show ?case
  proof (cases "c = CHR ''/''")
    case True
    have "\<forall>s\<in>set (split_slash [] p). CHR ''/'' \<notin> set s"
      by (rule Cons.IH) simp
    then show ?thesis using True Cons.prems by simp
  next
    case False
    have "\<forall>s\<in>set (split_slash (c # acc) p). CHR ''/'' \<notin> set s"
      by (rule Cons.IH) (use False Cons.prems in auto)
    then show ?thesis using False by simp
  qed
qed

lemma normalize_segments_subset:
  "set (normalize_segments b stack segs) \<subseteq> set stack \<union> (set segs - {[]})"
proof (induction b stack segs rule: normalize_segments.induct)
  case (1 b stack)
  then show ?case by simp
next
  case (2 b stack seg segs)
  then show ?case
    by (auto split: list.splits if_splits)
qed

lemma join_Cons: "join s (x # xs) = x @ (if xs = [] then [] else s @ join s xs)"
  by (cases xs) simp_all

lemma posix_isAbsolute_append:
  "r \<noteq> [] \<Longrightarrow> posix_isAbsolute (r @ t) = posix_isAbsolute r"
  by (cases r) (simp_all add: posix_isAbsolute_def)

lemma relative_result:
  assumes "\<not> posix_isAbsolute p"
    and "res = join ''/'' (normalize_segments True [] (split_slash [] p))"
    and "res \<noteq> []"
  shows "\<not> posix_isAbsolute res"
proof -
  let ?segs = "normalize_segments True [] (split_slash [] p)"
  have ne: "?segs \<noteq> []" using assms(2,3) by auto
  then obtain x xs where segs: "?segs = x # xs" by (cases ?segs) auto
  have "x \<in> set (split_slash [] p) - {[]}"
    using normalize_segments_subset [of True "[]" "split_slash [] p"] segs by auto
  then have x: "x \<noteq> []" "CHR ''/'' \<notin> set x"
    using split_slash_no_slash [of "[]" p] by auto
  then obtain c cs where "x = c # cs" "c \<noteq> CHR ''/''" by (cases x) auto
  then show ?thesis using assms(2) segs
    by (simp add: join_Cons posix_isAbsolute_def)
qed

lemma posix_normalize_absolute:
  "posix_isAbsolute (posix_normalize p) = posix_isAbsolute p"
proof (cases "p = []")
  case True
  then show ?thesis by (simp add: posix_normalize_def posix_isAbsolute_def)
next
  case False
  show ?thesis
  proof (cases "posix_isAbsolute p")
    case True
    then show ?thesis using False
      by (simp add: posix_normalize_def Let_def posix_isAbsolute_def)
  next
    case rel: False
    let ?res = "join ''/'' (normalize_segments True [] (split_slash [] p))"
    show ?thesis
    proof (cases "?res = []")
      case True
      then show ?thesis using False rel
        by (simp add: posix_normalize_def Let_def) (simp add: posix_isAbsolute_def)
    next
      case ne: False
      have "\<not> posix_isAbsolute ?res" using relative_result [OF rel refl ne] .
      then show ?thesis using False rel ne
        by (simp add: posix_normalize_def Let_def posix_isAbsolute_append)
    qed
  qed
qed

lemma sanitizePath_string:
  "sanitizePath P CONFIG (JStr p) =
     (if p \<noteq> [] \<and> isAbsolute P (normalize P p)
         \<and> (allowedPaths CONFIG = []
            \<or> (\<exists>a\<in>set (allowedPaths CONFIG).
                  normalize P p = a \<or> prefix (a @ sep P) (normalize P p)))
      then Some (normalize P p) else None)"
  by (auto simp: sanitizePath_def Let_def list_ex_iff)

lemma sanitizePath_non_string:
  "typeof v \<noteq> ''string'' \<Longrightarrow> sanitizePath P CONFIG v = None"
  by (simp add: sanitizePath_def)

text \<open>
  C2. For any path module, \<^verbatim>\<open>sanitizePath\<close> rejects every value that is not a non-empty
  string; it normalizes a string first and decides on the normalized path: rejected
  when that is not absolute, whatever the allow-list; accepted (and returned) when it
  is absolute and the allow-list is empty; with a non-empty allow-list accepted exactly
  when it equals an entry or starts with an entry followed by the separator. For the
  POSIX module, normalizing keeps a path absolute or relative, so every relative path
  is rejected; and for the allow-list \<^verbatim>\<open>["/a/b"]\<close>, \<^verbatim>\<open>/a/b\<close> and \<^verbatim>\<open>/a/b/c\<close> are accepted and
  \<^verbatim>\<open>/a/bc\<close> is rejected.
\<close>

theorem sanitizePath_accepts:
  "sanitizePath P CONFIG v =
     (case v of
        JStr p \<Rightarrow>
          if p \<noteq> [] \<and> isAbsolute P (normalize P p)
             \<and> (allowedPaths CONFIG = []
                \<or> (\<exists>a\<in>set (allowedPaths CONFIG).
                      normalize P p = a \<or> prefix (a @ sep P) (normalize P p)))
          then Some (normalize P p) else None
      | _ \<Rightarrow> None)
   \<and> posix_isAbsolute (posix_normalize q) = posix_isAbsolute q
   \<and> (\<not> posix_isAbsolute q \<longrightarrow> sanitizePath posix CONFIG (JStr q) = None)
   \<and> sanitizePath posix (CONFIG\<lparr>allowedPaths := [''/a/b'']\<rparr>) (JStr ''/a/b'') = Some ''/a/b''
   \<and> sanitizePath posix (CONFIG\<lparr>allowedPaths := [''/a/b'']\<rparr>) (JStr ''/a/b/c'') = Some ''/a/b/c''
   \<and> sanitizePath posix (CONFIG\<lparr>allowedPaths := [''/a/b'']\<rparr>) (JStr ''/a/bc'') = None"
proof -
  have general: "sanitizePath P CONFIG v =
     (case v of
        JStr p \<Rightarrow>
          if p \<noteq> [] \<and> isAbsolute P (normalize P p)
             \<and> (allowedPaths CONFIG = []
                \<or> (\<exists>a\<in>set (allowedPaths CONFIG).
                      normalize P p = a \<or> prefix (a @ sep P) (normalize P p)))
          then Some (normalize P p) else None
      | _ \<Rightarrow> None)"
    by (cases v) (simp_all add: sanitizePath_string sanitizePath_non_string)
  have rel: "\<not> posix_isAbsolute q \<longrightarrow> sanitizePath posix CONFIG (JStr q) = None"
    using posix_normalize_absolute [of q]
    by (simp add: sanitizePath_string) (simp add: posix_def)
  have e1: "sanitizePath posix (CONFIG\<lparr>allowedPaths := [''/a/b'']\<rparr>) (JStr ''/a/b'') = Some ''/a/b''"
    by (simp add: eval_path)
  have e2: "sanitizePath posix (CONFIG\<lparr>allowedPaths := [''/a/b'']\<rparr>) (JStr ''/a/b/c'') = Some ''/a/b/c''"
    by (simp add: eval_path)
  have e3: "sanitizePath posix (CONFIG\<lparr>allowedPaths := [''/a/b'']\<rparr>) (JStr ''/a/bc'') = None"
    by (simp add: eval_path)
  show ?thesis using general rel e1 e2 e3 posix_normalize_absolute by blast
qed

theorem sanitizePath_accepts_witness:
  "sanitizePath posix (default_config\<lparr>allowedPaths := [''/tmp'']\<rparr>) (JStr ''/tmp/a/../x'') = Some ''/tmp/x''
   \<and> sanitizePath posix (default_config\<lparr>allowedPaths := [''/tmp'']\<rparr>) (JStr ''/tmp/../etc/passwd'') = None
   \<and> sanitizePath posix (default_config\<lparr>allowedPaths := [''/tmp'']\<rparr>) (JStr ''tmp/x'') = None
   \<and> sanitizePath posix default_config (JStr ''/etc/./passwd'') = Some ''/etc/passwd''
   \<and> sanitizePath posix default_config (JNum 7) = None"
proof -
  have n1: "posix_normalize ''/tmp/a/../x'' = ''/tmp/x''"
    by (simp add: eval_path)
  have n2: "posix_normalize ''/tmp/../etc/passwd'' = ''/etc/passwd''"
    by (simp add: eval_path)
  have n3: "posix_normalize ''/etc/./passwd'' = ''/etc/passwd''"
    by (simp add: eval_path)
  have a: "\<not> posix_isAbsolute ''tmp/x''"
    by (simp add: posix_isAbsolute_def)
  show ?thesis
    using sanitizePath_accepts [of posix "default_config\<lparr>allowedPaths := [''/tmp'']\<rparr>" "JStr ''/tmp/a/../x''" "''tmp/x''"]
      sanitizePath_accepts [of posix "default_config\<lparr>allowedPaths := [''/tmp'']\<rparr>" "JStr ''/tmp/../etc/passwd''" "''tmp/x''"]
      sanitizePath_accepts [of posix default_config "JStr ''/etc/./passwd''" "''tmp/x''"]
      sanitizePath_accepts [of posix default_config "JNum 7" "''tmp/x''"]
      n1 n2 n3 a
    by (simp add: posix_def posix_isAbsolute_def default_config_def)
qed


section \<open>Path security of a request\<close>

lemma typeof_string: "typeof v = ''string'' \<longleftrightarrow> (\<exists>s. v = JStr s)"
  by (cases v) simp_all

















end
